theory Spec2Isabelle
  imports Complex_Main "HOL-Library.AList" "HOL-Library.Sublist"
begin

section \<open>Python strings\<close>

text \<open>
  Strings of the program are modelled as \<^typ>\<open>string\<close>. The operations below are the
  ones \<^verbatim>\<open>utils.py\<close>, \<^verbatim>\<open>transfer.py\<close> and \<^verbatim>\<open>watcher.py\<close> use:
  \<^verbatim>\<open>startswith\<close>, \<^verbatim>\<open>endswith\<close>, the substring test \<^verbatim>\<open>sub in s\<close>,
  \<^verbatim>\<open>split(sep)\<close>, \<^verbatim>\<open>lower()\<close> and \<^verbatim>\<open>strip()\<close>.
\<close>

definition startswith :: "string \<Rightarrow> string \<Rightarrow> bool" where
  "startswith s p = prefix p s"

definition endswith :: "string \<Rightarrow> string \<Rightarrow> bool" where
  "endswith s p = suffix p s"

text \<open>\<^verbatim>\<open>sub in s\<close>: some position of \<open>s\<close> starts with \<open>sub\<close>.\<close>

fun str_contains :: "string \<Rightarrow> string \<Rightarrow> bool" where
  "str_contains sub [] = (sub = [])"
| "str_contains sub (c # cs) = (prefix sub (c # cs) \<or> str_contains sub cs)"

text \<open>
  \<^verbatim>\<open>s.split(sep)\<close> scans from the left and cuts at every occurrence of \<open>sep\<close> that does
  not overlap the previous one; \<open>cur\<close> is the piece collected since the last cut.
  Python raises \<^verbatim>\<open>ValueError\<close> on an empty separator; both call sites pass a
  non-empty literal.
\<close>

function split_from :: "string \<Rightarrow> string \<Rightarrow> string \<Rightarrow> string list" where
  "split_from sep cur [] = [cur]"
| "split_from sep cur (c # cs) =
     (if sep \<noteq> [] \<and> prefix sep (c # cs)
      then cur # split_from sep [] (drop (length sep) (c # cs))
      else split_from sep (cur @ [c]) cs)"
  by pat_completeness auto
termination
  by (relation "measure (\<lambda>(sep, cur, s). length s)") auto

definition str_split :: "string \<Rightarrow> string \<Rightarrow> string list" where
  "str_split s sep = split_from sep [] s"

text \<open>\<^verbatim>\<open>lower()\<close> on the ASCII letters; every other character is kept.\<close>

definition ascii_lower :: "char \<Rightarrow> char" where
  "ascii_lower c =
     (case map_of (zip ''ABCDEFGHIJKLMNOPQRSTUVWXYZ'' ''abcdefghijklmnopqrstuvwxyz'') c of
        Some l \<Rightarrow> l
      | None \<Rightarrow> c)"

definition str_lower :: "string \<Rightarrow> string" where
  "str_lower s = map ascii_lower s"

text \<open>
  \<^verbatim>\<open>strip()\<close> removes the characters for which \<^verbatim>\<open>str.isspace\<close> holds at both
  ends. A \<^typ>\<open>char\<close> stands for a code point below 256; the white space there is
  U+0009 to U+000D, U+001C to U+0020, U+0085 and U+00A0.
\<close>

definition isspace :: "char \<Rightarrow> bool" where
  "isspace c = ((of_char c :: nat) \<in> {9, 10, 11, 12, 13, 28, 29, 30, 31, 32, 133, 160})"

definition str_strip :: "string \<Rightarrow> string" where
  "str_strip s = rev (dropWhile isspace (rev (dropWhile isspace s)))"

section \<open>utils.py: remote URLs\<close>

text \<open>
  \<^verbatim>\<open>parse_github_remote(url)\<close>. The slice \<^verbatim>\<open>url[15:]\<close> is \<open>drop 15\<close>, the slice
  \<^verbatim>\<open>path[:-4]\<close> is \<open>take (length path - 4)\<close>. The second piece of
  \<^verbatim>\<open>url.split("github.com/")\<close> is read under the guard that the separator occurs in
  \<open>url\<close>, so it exists (lemma \<open>split_has_second\<close>).
\<close>

definition strip_git_suffix :: "string \<Rightarrow> string" where
  "strip_git_suffix path =
     (if endswith path ''.git'' then take (length path - 4) path else path)"

definition parse_https_remote :: "string \<Rightarrow> (string \<times> string) option" where
  "parse_https_remote url =
     (if str_contains ''github.com/'' url then
        (let path = strip_git_suffix (str_split url ''github.com/'' ! 1);
             parts = str_split path ''/''
         in if length parts \<ge> 2 then Some (parts ! 0, parts ! 1) else None)
      else None)"

definition parse_github_remote :: "string \<Rightarrow> (string \<times> string) option" where
  "parse_github_remote url =
     (if startswith url ''git@github.com:'' then
        (let path = strip_git_suffix (drop 15 url);
             parts = str_split path ''/''
         in if length parts = 2 then Some (parts ! 0, parts ! 1)
            else parse_https_remote url)
      else parse_https_remote url)"

text \<open>\<^verbatim>\<open>build_github_url(owner, repo, protocol)\<close>: every protocol but \<^verbatim>\<open>"ssh"\<close> gives
  the HTTPS form.\<close>

definition build_github_url :: "string \<Rightarrow> string \<Rightarrow> string \<Rightarrow> string" where
  "build_github_url owner repo protocol =
     (if protocol = ''ssh'' then ''git@github.com:'' @ owner @ ''/'' @ repo @ ''.git''
      else ''https://github.com/'' @ owner @ ''/'' @ repo @ ''.git'')"

subsection \<open>Splitting and the round trip of a built URL\<close>

lemma str_contains_iff: "str_contains sub s \<longleftrightarrow> (\<exists>ps ss. s = ps @ sub @ ss)"
proof (induction s)
  case Nil
  then show ?case by auto
next
  case (Cons c cs)
  show ?case
  proof
    assume "str_contains sub (c # cs)"
    then consider "prefix sub (c # cs)" | "str_contains sub cs" by auto
    then show "\<exists>ps ss. c # cs = ps @ sub @ ss"
    proof cases
      case 1
      then obtain ss where "c # cs = sub @ ss" by (auto simp: prefix_def)
      then have "c # cs = [] @ sub @ ss" by simp
      then show ?thesis by blast
    next
      case 2
      with Cons.IH obtain ps ss where "cs = ps @ sub @ ss" by blast
      then have "c # cs = (c # ps) @ sub @ ss" by simp
      then show ?thesis by blast
    qed
  next
    assume "\<exists>ps ss. c # cs = ps @ sub @ ss"
    then obtain ps ss where e: "c # cs = ps @ sub @ ss" by blast
    show "str_contains sub (c # cs)"
    proof (cases ps)
      case Nil
      with e have "prefix sub (c # cs)" by (simp add: prefix_def)
      then show ?thesis by simp
    next
      case (Cons p ps')
      with e have "cs = ps' @ sub @ ss" by simp
      with Cons.IH have "str_contains sub cs" by blast
      then show ?thesis by simp
    qed
  qed
qed

lemma split_from_no_occ: "\<not> str_contains sep s \<Longrightarrow> split_from sep cur s = [cur @ s]"
  by (induction s arbitrary: cur) auto

lemma split_from_length: "length (split_from sep cur s) \<ge> 1"
  by (induction sep cur s rule: split_from.induct) auto

lemma split_has_second:
  "sep \<noteq> [] \<Longrightarrow> str_contains sep s \<Longrightarrow> 2 \<le> length (split_from sep cur s)"
proof (induction s arbitrary: cur)
  case Nil
  then show ?case by simp
next
  case (Cons c cs)
  show ?case
  proof (cases "prefix sep (c # cs)")
    case True
    then show ?thesis using Cons.prems(1) split_from_length[of sep "[]" "drop (length sep) (c # cs)"]
      by simp
  next
    case False
    with Cons.prems have "str_contains sep cs" by simp
    with Cons.IH Cons.prems(1) False show ?thesis by simp
  qed
qed

lemma split_slash_skip:
  "CHR ''/'' \<notin> set a \<Longrightarrow> split_from ''/'' cur (a @ s) = split_from ''/'' (cur @ a) s"
  by (induction a arbitrary: cur) auto

lemma split_slash_two:
  assumes "CHR ''/'' \<notin> set a" "CHR ''/'' \<notin> set b"
  shows "str_split (a @ ''/'' @ b) ''/'' = [a, b]"
proof -
  have "split_from ''/'' [] (a @ ''/'' @ b) = split_from ''/'' a (''/'' @ b)"
    using split_slash_skip[OF assms(1), of "[]" "''/'' @ b"] by simp
  also have "\<dots> = a # split_from ''/'' [] b" by simp
  also have "split_from ''/'' [] b = [b]"
    using split_slash_skip[OF assms(2), of "[]" "[]"] by simp
  finally show ?thesis by (simp add: str_split_def)
qed

lemma strip_git_suffix_app: "strip_git_suffix (p @ ''.git'') = p"
  by (simp add: strip_git_suffix_def endswith_def suffix_def)

lemma parse_ssh_roundtrip:
  assumes "CHR ''/'' \<notin> set owner" "CHR ''/'' \<notin> set repo"
  shows "parse_github_remote (build_github_url owner repo ''ssh'') = Some (owner, repo)"
proof -
  have u: "build_github_url owner repo ''ssh'' = ''git@github.com:'' @ (owner @ ''/'' @ repo) @ ''.git''"
    by (simp add: build_github_url_def)
  have d: "drop 15 (''git@github.com:'' @ (owner @ ''/'' @ repo) @ ''.git'') = (owner @ ''/'' @ repo) @ ''.git''"
    by simp
  show ?thesis
    unfolding u parse_github_remote_def d strip_git_suffix_app
    using split_slash_two[OF assms] by (simp add: startswith_def)
qed

lemma slash_unique:
  assumes "CHR ''/'' \<notin> set a" "CHR ''/'' \<notin> set b" "a @ CHR ''/'' # b = x @ CHR ''/'' # y"
  shows "a = x"
proof -
  from assms(3) obtain us where
    "a = x @ us \<and> us @ CHR ''/'' # b = CHR ''/'' # y \<or> a @ us = x \<and> CHR ''/'' # b = us @ CHR ''/'' # y"
    by (auto simp: append_eq_append_conv2)
  then show ?thesis
  proof
    assume h: "a = x @ us \<and> us @ CHR ''/'' # b = CHR ''/'' # y"
    show ?thesis
    proof (cases us)
      case Nil
      with h show ?thesis by simp
    next
      case (Cons u us')
      with h have "u = CHR ''/''" by simp
      with Cons h assms(1) show ?thesis by simp
    qed
  next
    assume h: "a @ us = x \<and> CHR ''/'' # b = us @ CHR ''/'' # y"
    show ?thesis
    proof (cases us)
      case Nil
      with h show ?thesis by simp
    next
      case (Cons u us')
      with h have "b = us' @ CHR ''/'' # y" by simp
      with assms(2) show ?thesis by simp
    qed
  qed
qed

lemma contains_sep_suffix:
  assumes "CHR ''/'' \<notin> set owner" "CHR ''/'' \<notin> set t"
    and "str_contains ''github.com/'' (owner @ ''/'' @ t)"
  shows "suffix ''github.com'' owner"
proof -
  from assms(3) obtain ps ss where "owner @ ''/'' @ t = ps @ ''github.com/'' @ ss"
    unfolding str_contains_iff by blast
  then have "owner @ CHR ''/'' # t = (ps @ ''github.com'') @ CHR ''/'' # ss" by simp
  from slash_unique[OF assms(1,2) this] show ?thesis by (simp add: suffix_def)
qed

lemma split_https_prefix:
  "split_from ''github.com/'' [] (''https://github.com/'' @ r) = ''https://'' # split_from ''github.com/'' [] r"
  by simp

lemma parse_https_roundtrip:
  assumes "CHR ''/'' \<notin> set owner" "CHR ''/'' \<notin> set repo" "\<not> suffix ''github.com'' owner" "protocol \<noteq> ''ssh''"
  shows "parse_github_remote (build_github_url owner repo protocol) = Some (owner, repo)"
proof -
  let ?rest = "(owner @ ''/'' @ repo) @ ''.git''"
  have u: "build_github_url owner repo protocol = ''https://github.com/'' @ ?rest"
    using assms(4) by (simp add: build_github_url_def)
  have c: "str_contains ''github.com/'' (''https://github.com/'' @ ?rest)"
    by simp
  have "CHR ''/'' \<notin> set (repo @ ''.git'')" using assms(2) by simp
  with contains_sep_suffix[OF assms(1), of "repo @ ''.git''"] assms(3)
  have "\<not> str_contains ''github.com/'' ?rest" by auto
  then have "split_from ''github.com/'' [] ?rest = [?rest]"
    using split_from_no_occ[of "''github.com/''" ?rest "[]"] by simp
  then have s: "str_split (''https://github.com/'' @ ?rest) ''github.com/'' ! 1 = ?rest"
    unfolding str_split_def split_https_prefix by simp
  have n: "\<not> startswith (''https://github.com/'' @ ?rest) ''git@github.com:''"
    by (simp add: startswith_def)
  show ?thesis
    unfolding u parse_github_remote_def parse_https_remote_def
    using c n s split_slash_two[OF assms(1,2)]
    by (simp only: if_True if_False Let_def strip_git_suffix_app) simp
qed

text \<open>
  Claim C10 (as amended). For an owner and a repository name without \<open>/\<close>,
  \<open>parse_github_remote (build_github_url owner repo protocol)\<close> returns
  \<open>(owner, repo)\<close> when the protocol is \<^verbatim>\<open>ssh\<close>, and for every other protocol (the
  HTTPS form) when the owner does not end with \<^verbatim>\<open>github.com\<close>.
\<close>

theorem build_parse_roundtrip:
  assumes "CHR ''/'' \<notin> set owner" and "CHR ''/'' \<notin> set repo"
    and "protocol = ''ssh'' \<or> \<not> suffix ''github.com'' owner"
  shows "parse_github_remote (build_github_url owner repo protocol) = Some (owner, repo)"
proof (cases "protocol = ''ssh''")
  case True
  then show ?thesis using parse_ssh_roundtrip[OF assms(1,2)] by simp
next
  case False
  with assms(3) have "\<not> suffix ''github.com'' owner" by simp
  from parse_https_roundtrip[OF assms(1,2) this False] show ?thesis .
qed

theorem build_parse_roundtrip_witness:
  "CHR ''/'' \<notin> set ''acme'' \<and> CHR ''/'' \<notin> set ''web''
   \<and> \<not> suffix ''github.com'' ''acme''
   \<and> parse_github_remote (build_github_url ''acme'' ''web'' ''https'') = Some (''acme'', ''web'')
   \<and> parse_github_remote (build_github_url ''acme'' ''web'' ''ssh'') = Some (''acme'', ''web'')"
proof -
  have a: "CHR ''/'' \<notin> set ''acme''" and b: "CHR ''/'' \<notin> set ''web''" by simp_all
  have c: "\<not> suffix ''github.com'' ''acme''" by (simp add: suffix_to_prefix)
  from c have c': "''https'' = ''ssh'' \<or> \<not> suffix ''github.com'' ''acme''" by simp
  have d: "''ssh'' = ''ssh'' \<or> \<not> suffix ''github.com'' ''acme''" by simp
  show ?thesis
    using a b c build_parse_roundtrip[OF a b c'] build_parse_roundtrip[OF a b d] by simp
qed

text \<open>
  Claim C10 as stated fails for the HTTPS form: the owner \<^verbatim>\<open>github.com\<close> is non-empty
  and has no \<open>/\<close>, the built URL is \<^verbatim>\<open>https://github.com/github.com/r.git\<close>, and the
  second piece of its split at \<^verbatim>\<open>github.com/\<close> is empty, so the parser returns
  \<^verbatim>\<open>None\<close>.
\<close>

theorem build_parse_roundtrip_counterexample:
  "''github.com'' \<noteq> [] \<and> CHR ''/'' \<notin> set ''github.com''
   \<and> ''r'' \<noteq> [] \<and> CHR ''/'' \<notin> set ''r''
   \<and> parse_github_remote (build_github_url ''github.com'' ''r'' ''https'') = None"
  by (simp add: parse_github_remote_def parse_https_remote_def build_github_url_def
      startswith_def str_split_def strip_git_suffix_def endswith_def)

section \<open>Dictionaries, paths and records\<close>

text \<open>
  A Python \<^verbatim>\<open>dict\<close> is iterated in insertion order and holds every key once. It is an
  association list; \<open>wf_dict\<close> says that its keys are distinct, which holds of every
  dictionary the program builds. \<^verbatim>\<open>d[k] = v\<close> is \<open>AList.update\<close>: the value is replaced
  in place when the key is there and appended otherwise.
\<close>

type_synonym ('k, 'v) dict = "('k \<times> 'v) list"

definition wf_dict :: "('k, 'v) dict \<Rightarrow> bool" where
  "wf_dict d = distinct (map fst d)"

definition dict_keys :: "('k, 'v) dict \<Rightarrow> 'k list" where
  "dict_keys d = map fst d"

definition dict_get :: "('k, 'v) dict \<Rightarrow> 'k \<Rightarrow> 'v \<Rightarrow> 'v" where
  "dict_get d k dflt = (case map_of d k of None \<Rightarrow> dflt | Some v \<Rightarrow> v)"

text \<open>
  A \<^verbatim>\<open>pathlib.Path\<close> is the list of its components below the root. \<^verbatim>\<open>p / name\<close>
  appends a component, \<^verbatim>\<open>p.relative_to(base)\<close> raises \<^verbatim>\<open>ValueError\<close> (here
  \<open>None\<close>) unless \<open>base\<close> is a prefix of \<open>p\<close>, and \<^verbatim>\<open>p.name\<close> is the last component.
\<close>

type_synonym path = "string list"

definition relative_to :: "path \<Rightarrow> path \<Rightarrow> path option" where
  "relative_to p base = (if prefix base p then Some (drop (length base) p) else None)"

definition path_name :: "path \<Rightarrow> string" where
  "path_name p = (if p = [] then [] else last p)"

definition path_str :: "path \<Rightarrow> string" where
  "path_str p = (if p = [] then ''/'' else concat (map (\<lambda>c. ''/'' @ c) p))"

text \<open>\<^verbatim>\<open>transfer.Repository\<close> and \<^verbatim>\<open>config.Config\<close>.\<close>

record repository =
  r_name :: string
  r_owner :: string
  r_full_name :: string
  r_clone_url :: string
  r_ssh_url :: string
  r_is_private :: bool
  r_is_archived :: bool
  r_default_branch :: string

record config =
  base_path :: path
  organizations :: "string list"
  sync_interval :: int
  exclude_repos :: "string list"
  auto_update_remotes :: bool
  clone_protocol :: string

definition get_org_path :: "config \<Rightarrow> string \<Rightarrow> path" where
  "get_org_path cfg org = base_path cfg @ [org]"

definition get_repo_path :: "config \<Rightarrow> string \<Rightarrow> string \<Rightarrow> path" where
  "get_repo_path cfg org repo = base_path cfg @ [org, repo]"

section \<open>sync.py: the three findings\<close>

type_synonym local_map = "(string, (string, path) dict) dict"
type_synonym github_map = "(string, (string, repository) dict) dict"

text \<open>
  The index \<^verbatim>\<open>github_locations\<close> of \<^verbatim>\<open>find_misplaced_repos\<close>: the two nested loops
  assign \<^verbatim>\<open>github_locations[repo_name] = org\<close>, so a name listed under several
  organizations keeps the last one.
\<close>

definition locate_all :: "string \<Rightarrow> (string, 'v) dict \<Rightarrow> (string \<rightharpoonup> string) \<Rightarrow> (string \<rightharpoonup> string)" where
  "locate_all org repos locs = fold (\<lambda>(repo_name, _) locs. locs(repo_name \<mapsto> org)) repos locs"

definition github_locations :: "github_map \<Rightarrow> (string \<rightharpoonup> string)" where
  "github_locations github_repos =
     fold (\<lambda>(org, repos) locs. locate_all org repos locs) github_repos Map.empty"

definition find_misplaced_repos ::
  "local_map \<Rightarrow> github_map \<Rightarrow> (string \<times> string \<times> string \<times> path) list" where
  "find_misplaced_repos local_repos github_repos =
     concat (map (\<lambda>(local_org, repos).
       concat (map (\<lambda>(repo_name, path).
         (case github_locations github_repos repo_name of
            None \<Rightarrow> []
          | Some correct_org \<Rightarrow>
              if correct_org \<noteq> local_org then [(repo_name, local_org, correct_org, path)]
              else [])) repos)) local_repos)"

definition find_missing_repos ::
  "local_map \<Rightarrow> github_map \<Rightarrow> (string \<times> string \<times> repository) list" where
  "find_missing_repos local_repos github_repos =
     concat (map (\<lambda>(org, repos).
       (let local_org_repos = dict_get local_repos org [] in
        concat (map (\<lambda>(repo_name, repo).
          if repo_name \<notin> set (dict_keys local_org_repos) then [(org, repo_name, repo)]
          else []) repos))) github_repos)"

definition github_repo_names :: "github_map \<Rightarrow> string set" where
  "github_repo_names github_repos =
     fold (\<lambda>repos names. names \<union> set (dict_keys repos)) (map snd github_repos) {}"

definition find_orphaned_repos ::
  "local_map \<Rightarrow> github_map \<Rightarrow> (string \<times> string \<times> path) list" where
  "find_orphaned_repos local_repos github_repos =
     concat (map (\<lambda>(org, repos).
       concat (map (\<lambda>(repo_name, path).
         if repo_name \<notin> github_repo_names github_repos then [(org, repo_name, path)]
         else []) repos)) local_repos)"

text \<open>The repository names of each finding list.\<close>

definition misplaced_names :: "local_map \<Rightarrow> github_map \<Rightarrow> string set" where
  "misplaced_names local_repos github_repos =
     (\<lambda>(repo_name, local_org, correct_org, path). repo_name) `
       set (find_misplaced_repos local_repos github_repos)"

definition missing_names :: "local_map \<Rightarrow> github_map \<Rightarrow> string set" where
  "missing_names local_repos github_repos =
     (\<lambda>(org, repo_name, repo). repo_name) ` set (find_missing_repos local_repos github_repos)"

definition orphaned_names :: "local_map \<Rightarrow> github_map \<Rightarrow> string set" where
  "orphaned_names local_repos github_repos =
     (\<lambda>(org, repo_name, path). repo_name) ` set (find_orphaned_repos local_repos github_repos)"

text \<open>All names the remote snapshot lists, under any organization.\<close>

definition remote_names :: "github_map \<Rightarrow> string set" where
  "remote_names github_repos = (\<Union>(org, repos) \<in> set github_repos. set (dict_keys repos))"

text \<open>
  The words of the specification. The remote map \<open>owns\<close> a name under an organization
  when it lists the name there, and the local map holds a name under an organization
  when that folder has it. The specification takes remote names to be globally unique:
  \<open>single_owner\<close> says that no name is listed twice in the remote map, and then the
  owning organization of a name is the one that lists it. A name is correctly placed
  when one organization owns it and the same organization, and no other, holds it
  locally.
\<close>

definition owns :: "github_map \<Rightarrow> string \<Rightarrow> string \<Rightarrow> bool" where
  "owns G org n = (\<exists>repos r. (org, repos) \<in> set G \<and> (n, r) \<in> set repos)"

definition holds_locally :: "local_map \<Rightarrow> string \<Rightarrow> string \<Rightarrow> bool" where
  "holds_locally L org n = (\<exists>repos p. (org, repos) \<in> set L \<and> (n, p) \<in> set repos)"


definition correctly_placed :: "local_map \<Rightarrow> github_map \<Rightarrow> string \<Rightarrow> bool" where
  "correctly_placed L G n =
     (\<exists>c. (\<forall>org. holds_locally L org n \<longleftrightarrow> org = c) \<and> (\<forall>org. owns G org n \<longleftrightarrow> org = c))"




text \<open>A descriptor as \<^verbatim>\<open>list_org_repos\<close> builds it, for the examples.\<close>

definition example_repo :: "string \<Rightarrow> string \<Rightarrow> repository" where
  "example_repo owner nm =
     \<lparr>r_name = nm, r_owner = owner, r_full_name = owner @ ''/'' @ nm,
      r_clone_url = ''https://github.com/'' @ owner @ ''/'' @ nm @ ''.git'',
      r_ssh_url = ''git@github.com:'' @ owner @ ''/'' @ nm @ ''.git'',
      r_is_private = False, r_is_archived = False, r_default_branch = ''main''\<rparr>"

text \<open>
  Two snapshots for the examples: \<^verbatim>\<open>tools\<close> is under \<^verbatim>\<open>acme\<close> locally and owned by
  \<^verbatim>\<open>other\<close>, \<^verbatim>\<open>web\<close> is in place, \<^verbatim>\<open>legacy\<close> is local only and \<^verbatim>\<open>api\<close> is remote only.
\<close>

definition demo_local :: local_map where
  "demo_local = [(''acme'', [(''tools'', [''orgs'', ''acme'', ''tools'']),
                             (''web'', [''orgs'', ''acme'', ''web'']),
                             (''legacy'', [''orgs'', ''acme'', ''legacy''])])]"

definition demo_remote :: github_map where
  "demo_remote = [(''acme'', [(''web'', example_repo ''acme'' ''web'')]),
                  (''other'', [(''tools'', example_repo ''other'' ''tools''),
                               (''api'', example_repo ''other'' ''api'')])]"

subsection \<open>The index and the name sets\<close>

lemma inner_locs_dom:
  "dom (locate_all org repos locs) = dom locs \<union> set (dict_keys repos)"
  unfolding locate_all_def
  by (induction repos arbitrary: locs) (auto simp: dict_keys_def split: prod.splits)

lemma outer_locs_dom:
  "dom (fold (\<lambda>(org, repos) locs. locate_all org repos locs) gh locs)
     = dom locs \<union> remote_names gh"
proof (induction gh arbitrary: locs)
  case Nil
  then show ?case by (simp add: remote_names_def)
next
  case (Cons a gh)
  obtain org repos where a: "a = (org, repos)" by (cases a)
  show ?case unfolding a
    by (simp add: Cons.IH inner_locs_dom remote_names_def Un_assoc)
qed

lemma github_locations_dom: "dom (github_locations gh) = remote_names gh"
  by (simp add: github_locations_def outer_locs_dom)

lemma github_repo_names_fold:
  "fold (\<lambda>repos names. names \<union> set (dict_keys repos)) (map snd gh) acc = acc \<union> remote_names gh"
  by (induction gh arbitrary: acc) (auto simp: remote_names_def)

lemma github_repo_names_eq: "github_repo_names gh = remote_names gh"
  by (simp add: github_repo_names_def github_repo_names_fold)

lemma inner_locs_val:
  "locate_all org repos locs n = Some c
   \<Longrightarrow> locs n = Some c \<or> (c = org \<and> n \<in> set (dict_keys repos))"
proof (induction repos arbitrary: locs)
  case Nil
  then show ?case by (simp add: locate_all_def)
next
  case (Cons a repos)
  obtain k v where a: "a = (k, v)" by (cases a)
  from Cons.prems have "locate_all org repos (locs(k \<mapsto> org)) n = Some c"
    by (simp add: locate_all_def a)
  from Cons.IH[OF this] show ?case
    by (cases "n = k") (auto simp: a dict_keys_def)
qed

lemma outer_locs_val:
  "fold (\<lambda>(org, repos) locs. locate_all org repos locs) gh locs n = Some c
   \<Longrightarrow> locs n = Some c \<or> (\<exists>repos. (c, repos) \<in> set gh \<and> n \<in> set (dict_keys repos))"
proof (induction gh arbitrary: locs)
  case Nil
  then show ?case by simp
next
  case (Cons a gh)
  obtain org repos where a: "a = (org, repos)" by (cases a)
  from Cons.prems have
    "fold (\<lambda>(org, repos) locs. locate_all org repos locs) gh (locate_all org repos locs) n = Some c"
    by (simp add: a)
  from Cons.IH[OF this] show ?case
    using inner_locs_val[of org repos locs n c] by (auto simp: a)
qed

lemma github_locations_owner:
  "github_locations gh n = Some c \<Longrightarrow> \<exists>repos. (c, repos) \<in> set gh \<and> n \<in> set (dict_keys repos)"
  using outer_locs_val[of gh Map.empty n c] by (simp add: github_locations_def)

lemma set_find_misplaced:
  "set (find_misplaced_repos L G) =
     {(n, lo, c, p). (\<exists>repos. (lo, repos) \<in> set L \<and> (n, p) \<in> set repos)
        \<and> github_locations G n = Some c \<and> c \<noteq> lo}"
  by (auto simp: find_misplaced_repos_def split: option.splits if_splits) 

lemma set_find_missing:
  "set (find_missing_repos L G) =
     {(org, n, r). (\<exists>repos. (org, repos) \<in> set G \<and> (n, r) \<in> set repos)
        \<and> n \<notin> set (dict_keys (dict_get L org []))}"
  by (auto simp: find_missing_repos_def Let_def split: if_splits)

lemma set_find_orphaned:
  "set (find_orphaned_repos L G) =
     {(org, n, p). (\<exists>repos. (org, repos) \<in> set L \<and> (n, p) \<in> set repos) \<and> n \<notin> remote_names G}"
  by (auto simp: find_orphaned_repos_def github_repo_names_eq split: if_splits)

lemma dict_get_keys:
  assumes "wf_dict L"
  shows "n \<in> set (dict_keys (dict_get L org [])) \<longleftrightarrow> (\<exists>repos p. (org, repos) \<in> set L \<and> (n, p) \<in> set repos)"
proof (cases "map_of L org")
  case None
  then have "\<And>repos. (org, repos) \<notin> set L" by (metis map_of_eq_None_iff fst_conv image_eqI)
  with None show ?thesis by (auto simp: dict_get_def dict_keys_def)
next
  case (Some lr)
  with assms have "\<And>repos. (org, repos) \<in> set L \<longleftrightarrow> repos = lr"
    by (metis wf_dict_def eq_key_imp_eq_value map_of_SomeD)
  with Some show ?thesis by (force simp: dict_get_def dict_keys_def)
qed

lemma orphaned_not_misplaced: "orphaned_names L G \<inter> misplaced_names L G = {}"
proof -
  have "n \<in> misplaced_names L G \<Longrightarrow> n \<in> remote_names G" for n
    using github_locations_dom[of G] by (auto simp: misplaced_names_def set_find_misplaced)
  moreover have "n \<in> orphaned_names L G \<Longrightarrow> n \<notin> remote_names G" for n
    by (auto simp: orphaned_names_def set_find_orphaned)
  ultimately show ?thesis by blast
qed

lemma orphaned_not_missing: "orphaned_names L G \<inter> missing_names L G = {}"
proof -
  have "n \<in> missing_names L G \<Longrightarrow> n \<in> remote_names G" for n
    by (force simp: missing_names_def set_find_missing remote_names_def dict_keys_def)
  moreover have "n \<in> orphaned_names L G \<Longrightarrow> n \<notin> remote_names G" for n
    by (auto simp: orphaned_names_def set_find_orphaned)
  ultimately show ?thesis by blast
qed


lemma remote_names_iff:
  "n \<in> remote_names G \<longleftrightarrow> (\<exists>org repos r. (org, repos) \<in> set G \<and> (n, r) \<in> set repos)"
  by (force simp: remote_names_def dict_keys_def)

lemma owns_keys: "owns G org n \<longleftrightarrow> (\<exists>repos. (org, repos) \<in> set G \<and> n \<in> set (dict_keys repos))"
  by (force simp: owns_def dict_keys_def)




subsection \<open>Claims C1 and C2\<close>

text \<open>
  Claim C1 (as amended). For every pair of snapshots, a repository name in the Orphaned
  findings appears neither in the Misplaced findings nor in the Missing findings; and a
  name that is correctly placed (the local snapshot being a dictionary) appears in none
  of the three.
\<close>

theorem findings_partition:
  "orphaned_names L G \<inter> misplaced_names L G = {}
   \<and> orphaned_names L G \<inter> missing_names L G = {}
   \<and> (wf_dict L \<and> correctly_placed L G n
        \<longrightarrow> n \<notin> misplaced_names L G \<and> n \<notin> missing_names L G \<and> n \<notin> orphaned_names L G)"
proof -
  have c: "n \<notin> misplaced_names L G \<and> n \<notin> missing_names L G \<and> n \<notin> orphaned_names L G"
    if w: "wf_dict L" and cp: "correctly_placed L G n"
  proof -
    from cp obtain c where l: "\<And>org. holds_locally L org n \<longleftrightarrow> org = c"
      and r: "\<And>org. owns G org n \<longleftrightarrow> org = c"
      unfolding correctly_placed_def by blast
    have 1: "n \<notin> misplaced_names L G"
    proof
      assume "n \<in> misplaced_names L G"
      then obtain lo c' p where "(n, lo, c', p) \<in> set (find_misplaced_repos L G)"
        by (auto simp: misplaced_names_def)
      then have h: "holds_locally L lo n" and g: "github_locations G n = Some c'" and ne: "c' \<noteq> lo"
        by (auto simp: set_find_misplaced holds_locally_def)
      from github_locations_owner[OF g] have "owns G c' n" by (simp add: owns_keys)
      with r l h ne show False by simp
    qed
    have 2: "n \<notin> missing_names L G"
    proof
      assume "n \<in> missing_names L G"
      then obtain org repo where "(org, n, repo) \<in> set (find_missing_repos L G)"
        by (auto simp: missing_names_def)
      then have o: "owns G org n" and m: "n \<notin> set (dict_keys (dict_get L org []))"
        by (auto simp: set_find_missing owns_def)
      from o r have "org = c" by simp
      with l have "holds_locally L org n" by simp
      with m dict_get_keys[OF w, of n org] show False unfolding holds_locally_def by blast
    qed
    have 3: "n \<notin> orphaned_names L G"
    proof
      assume "n \<in> orphaned_names L G"
      then have "n \<notin> remote_names G" by (auto simp: orphaned_names_def set_find_orphaned)
      moreover from r have "owns G c n" by simp
      ultimately show False by (auto simp: remote_names_iff owns_def)
    qed
    from 1 2 3 show ?thesis by simp
  qed
  with orphaned_not_misplaced[of L G] orphaned_not_missing[of L G] show ?thesis by blast
qed

theorem findings_partition_witness:
  "wf_dict demo_local \<and> correctly_placed demo_local demo_remote ''web''
   \<and> ''web'' \<notin> misplaced_names demo_local demo_remote
   \<and> ''web'' \<notin> missing_names demo_local demo_remote
   \<and> ''web'' \<notin> orphaned_names demo_local demo_remote"
proof -
  have w: "wf_dict demo_local" by (simp add: wf_dict_def demo_local_def)
  have l: "\<And>org. holds_locally demo_local org ''web'' \<longleftrightarrow> org = ''acme''"
    by (auto simp: holds_locally_def demo_local_def)
  have r: "\<And>org. owns demo_remote org ''web'' \<longleftrightarrow> org = ''acme''"
    by (auto simp: owns_def demo_remote_def)
  from l r have c: "correctly_placed demo_local demo_remote ''web''"
    unfolding correctly_placed_def by blast
  from findings_partition[of demo_local demo_remote "''web''"] w c show ?thesis by blast
qed

text \<open>
  Claim C1 as stated fails between Misplaced and Missing. In scenario 2 of the
  specification the local snapshot has \<^verbatim>\<open>tools\<close> under \<^verbatim>\<open>acme\<close> and the remote one has
  it under \<^verbatim>\<open>other\<close>: the name is Misplaced, and since \<^verbatim>\<open>find_missing_repos\<close> looks
  only at the local folder of \<^verbatim>\<open>other\<close>, it is Missing as well.
\<close>

theorem findings_disjoint_counterexample:
  "''tools'' \<in> misplaced_names [(''acme'', [(''tools'', [''orgs'', ''acme'', ''tools''])])]
       [(''other'', [(''tools'', example_repo ''other'' ''tools'')])]
   \<and> ''tools'' \<in> missing_names [(''acme'', [(''tools'', [''orgs'', ''acme'', ''tools''])])]
       [(''other'', [(''tools'', example_repo ''other'' ''tools'')])]"
  by (simp add: misplaced_names_def missing_names_def find_misplaced_repos_def
      find_missing_repos_def github_locations_def locate_all_def dict_get_def dict_keys_def)



section \<open>The environment\<close>

text \<open>
  The \<^verbatim>\<open>gh\<close> and \<^verbatim>\<open>git\<close> subprocesses, the file system, the clock and
  \<^verbatim>\<open>time.sleep\<close> are outside the program. They act on a world \<open>'w\<close> that the model
  never inspects: every operation takes the world and returns its answer and the next
  world. \<open>x_decode_repos\<close> is \<^verbatim>\<open>json.loads\<close> followed by the construction of the
  \<^verbatim>\<open>Repository\<close> objects (\<open>None\<close> for \<^verbatim>\<open>JSONDecodeError\<close>); \<open>x_move\<close> is
  \<^verbatim>\<open>shutil.move\<close>, which answers \<open>Some e\<close> when it raises the exception printed as
  \<open>e\<close>. \<open>x_git_clone\<close> is the \<^verbatim>\<open>subprocess.run\<close> of \<^verbatim>\<open>git clone\<close>: it answers
  \<open>Inr\<close> of the completed process, or \<open>Inl e\<close> when it raises \<open>e\<close> (as it does with
  \<^verbatim>\<open>FileNotFoundError\<close> when \<^verbatim>\<open>git\<close> cannot be started). The other operations are
  taken not to raise.

  A time stamp is the value of a Python float, a real number. \<open>x_fsub\<close> is the
  subtraction of two floats, which rounds; the model does not fix it, and every
  comparison of a time difference is made on its result, as the source makes it.
\<close>

record completed_process =
  returncode :: int
  stdout :: string
  stderr :: string

record 'w ext =
  x_gh :: "string list \<Rightarrow> 'w \<Rightarrow> completed_process \<times> 'w"
  x_git_clone :: "string \<Rightarrow> string \<Rightarrow> 'w \<Rightarrow> (string + completed_process) \<times> 'w"
  x_git_get_url :: "path \<Rightarrow> 'w \<Rightarrow> string option \<times> 'w"
  x_git_set_url :: "path \<Rightarrow> string \<Rightarrow> 'w \<Rightarrow> bool \<times> 'w"
  x_is_dir :: "path \<Rightarrow> 'w \<Rightarrow> bool"
  x_exists :: "path \<Rightarrow> 'w \<Rightarrow> bool"
  x_iterdir :: "path \<Rightarrow> 'w \<Rightarrow> path list"
  x_mkdir :: "path \<Rightarrow> 'w \<Rightarrow> 'w"
  x_move :: "string \<Rightarrow> string \<Rightarrow> 'w \<Rightarrow> string option \<times> 'w"
  x_time :: "'w \<Rightarrow> real \<times> 'w"
  x_sleep :: "real \<Rightarrow> 'w \<Rightarrow> 'w"
  x_fsub :: "real \<Rightarrow> real \<Rightarrow> real"
  x_decode_repos :: "string \<Rightarrow> repository list option"

text \<open>
  The state of a run is the world and the trace of the calls made so far: the console
  messages with their level, the \<^verbatim>\<open>gh\<close> commands, the calls of
  \<^verbatim>\<open>get_repo_remote_url\<close>, \<^verbatim>\<open>set_repo_remote_url\<close>, \<^verbatim>\<open>git clone\<close>,
  \<^verbatim>\<open>shutil.move\<close>, \<^verbatim>\<open>mkdir\<close> and \<^verbatim>\<open>time.sleep\<close>, the calls of the
  \<^verbatim>\<open>on_transfer\<close> observer and the threads started by \<^verbatim>\<open>on_moved\<close>.
\<close>

datatype level = Info | Success | Warning | Error

datatype event =
    Print level string
  | RunGh "string list"
  | GetRemoteUrl path
  | SetRemoteUrl path string
  | GitClone string string
  | ShutilMove string string
  | Mkdir path
  | Sleep real
  | OnTransfer string string string
  | ThreadStart string string path path

record 'w st =
  world :: 'w
  trace :: "event list"

definition emit :: "event \<Rightarrow> 'w st \<Rightarrow> 'w st" where
  "emit e s = s\<lparr>trace := trace s @ [e]\<rparr>"

definition print_info :: "string \<Rightarrow> 'w st \<Rightarrow> 'w st" where
  "print_info message s = emit (Print Info message) s"

definition print_success :: "string \<Rightarrow> 'w st \<Rightarrow> 'w st" where
  "print_success message s = emit (Print Success message) s"

definition print_warning :: "string \<Rightarrow> 'w st \<Rightarrow> 'w st" where
  "print_warning message s = emit (Print Warning message) s"

definition print_error :: "string \<Rightarrow> 'w st \<Rightarrow> 'w st" where
  "print_error message s = emit (Print Error message) s"

definition time_time :: "'w ext \<Rightarrow> 'w st \<Rightarrow> real \<times> 'w st" where
  "time_time ext s = (let (t, w) = x_time ext (world s) in (t, s\<lparr>world := w\<rparr>))"

definition time_sleep :: "'w ext \<Rightarrow> real \<Rightarrow> 'w st \<Rightarrow> 'w st" where
  "time_sleep ext secs s = emit (Sleep secs) (s\<lparr>world := x_sleep ext secs (world s)\<rparr>)"

text \<open>Decimal printing of an integer, for the \<^verbatim>\<open>{timeout}\<close> of a message.\<close>

function str_nat :: "nat \<Rightarrow> string" where
  "str_nat n =
     (if n < 10 then [''0123456789'' ! n]
      else str_nat (n div 10) @ [''0123456789'' ! (n mod 10)])"
  by pat_completeness auto
termination
  by (relation "measure id") auto

declare str_nat.simps [simp del]

definition str_int :: "int \<Rightarrow> string" where
  "str_int i = (if i < 0 then ''-'' @ str_nat (nat (- i)) else str_nat (nat i))"

section \<open>utils.py: the collaborators\<close>

definition is_git_repo :: "'w ext \<Rightarrow> path \<Rightarrow> 'w st \<Rightarrow> bool" where
  "is_git_repo ext p s = x_is_dir ext (p @ [''.git'']) (world s)"

definition run_gh_command :: "'w ext \<Rightarrow> string list \<Rightarrow> 'w st \<Rightarrow> completed_process \<times> 'w st" where
  "run_gh_command ext args s =
     (let (result, w) = x_gh ext args (world s)
      in (result, emit (RunGh args) (s\<lparr>world := w\<rparr>)))"

text \<open>
  \<^verbatim>\<open>get_repo_remote_url\<close>: \<open>x_git_get_url\<close> answers the standard output of
  \<^verbatim>\<open>git remote get-url origin\<close>, or \<open>None\<close> for \<^verbatim>\<open>CalledProcessError\<close>.
\<close>

definition get_repo_remote_url :: "'w ext \<Rightarrow> path \<Rightarrow> 'w st \<Rightarrow> string option \<times> 'w st" where
  "get_repo_remote_url ext p s =
     (let s0 = emit (GetRemoteUrl p) s in
      if \<not> is_git_repo ext p s0 then (None, s0)
      else (let (out, w) = x_git_get_url ext p (world s0)
            in (case out of
                  Some text \<Rightarrow> (Some (str_strip text), s0\<lparr>world := w\<rparr>)
                | None \<Rightarrow> (None, s0\<lparr>world := w\<rparr>))))"

definition set_repo_remote_url :: "'w ext \<Rightarrow> path \<Rightarrow> string \<Rightarrow> 'w st \<Rightarrow> bool \<times> 'w st" where
  "set_repo_remote_url ext p url s =
     (let s0 = emit (SetRemoteUrl p url) s in
      if \<not> is_git_repo ext p s0 then (False, s0)
      else (let (ok, w) = x_git_set_url ext p url (world s0) in (ok, s0\<lparr>world := w\<rparr>)))"

section \<open>transfer.py\<close>

definition list_org_repos :: "'w ext \<Rightarrow> string \<Rightarrow> 'w st \<Rightarrow> repository list \<times> 'w st" where
  "list_org_repos ext org s =
     (let (result, s1) = run_gh_command ext
            [''repo'', ''list'', org, ''--limit'', ''500'', ''--json'',
             ''name,owner,nameWithOwner,url,sshUrl,isPrivate,isArchived,defaultBranchRef''] s
      in if returncode result \<noteq> 0
         then ([], print_error (''Failed to list repos for '' @ org @ '': '' @ stderr result) s1)
         else (case x_decode_repos ext (stdout result) of
                 None \<Rightarrow> ([], print_error (''Failed to parse repo list for '' @ org) s1)
               | Some repos \<Rightarrow> (repos, s1)))"

definition transfer_repo :: "'w ext \<Rightarrow> string \<Rightarrow> string \<Rightarrow> string \<Rightarrow> 'w st \<Rightarrow> bool \<times> 'w st" where
  "transfer_repo ext owner repo new_owner s =
     (let s1 = print_info (''Transferring '' @ owner @ ''/'' @ repo @ '' to '' @ new_owner @ ''...'') s;
          (result, s2) = run_gh_command ext
            [''api'', ''/repos/'' @ owner @ ''/'' @ repo @ ''/transfer'', ''-X'', ''POST'', ''-f'',
             ''new_owner='' @ new_owner] s1
      in if returncode result \<noteq> 0 then
           (let error_msg = stderr result in
            if str_contains ''transfer is already pending'' (str_lower error_msg)
            then (True, print_warning (''Transfer already pending for '' @ repo) s2)
            else if str_contains ''must wait'' (str_lower error_msg)
                    \<or> str_contains ''cooldown'' (str_lower error_msg)
            then (False, print_warning
                    (''Transfer cooldown active for '' @ repo @ ''. Please wait ~24 hours.'') s2)
            else (False, print_error
                    (''Failed to transfer '' @ owner @ ''/'' @ repo @ '': '' @ error_msg) s2))
         else (True, print_success (''Transfer initiated for '' @ repo @ '' to '' @ new_owner) s2))"

text \<open>
  The loop of \<^verbatim>\<open>wait_for_transfer\<close> ends when the clock says so, and the clock belongs
  to the world: the loop is given fuel, one unit for each reading of the clock, and
  \<open>None\<close> says that the fuel ran out before the loop ended.
\<close>

fun wait_loop ::
  "'w ext \<Rightarrow> nat \<Rightarrow> string \<Rightarrow> string \<Rightarrow> int \<Rightarrow> real \<Rightarrow> 'w st \<Rightarrow> (bool \<times> 'w st) option" where
  "wait_loop ext 0 new_owner repo timeout start_time s = None"
| "wait_loop ext (Suc fuel) new_owner repo timeout start_time s =
     (let (now, s1) = time_time ext s in
      if x_fsub ext now start_time < real_of_int timeout then
        (let (result, s2) = run_gh_command ext
               [''repo'', ''view'', new_owner @ ''/'' @ repo, ''--json'', ''name''] s1
         in if returncode result = 0
            then Some (True, print_success (''Transfer complete: '' @ new_owner @ ''/'' @ repo) s2)
            else wait_loop ext fuel new_owner repo timeout start_time (time_sleep ext 2 s2))
      else Some (False, print_warning
             (''Transfer not complete within '' @ str_int timeout @ ''s. It may still be processing.'')
             s1))"

definition wait_for_transfer ::
  "'w ext \<Rightarrow> nat \<Rightarrow> string \<Rightarrow> string \<Rightarrow> int \<Rightarrow> 'w st \<Rightarrow> (bool \<times> 'w st) option" where
  "wait_for_transfer ext fuel new_owner repo timeout s =
     (let s1 = print_info ''Waiting for transfer to complete...'' s;
          (start_time, s2) = time_time ext s1
      in wait_loop ext fuel new_owner repo timeout start_time s2)"

text \<open>
  \<^verbatim>\<open>clone_repo\<close> has no handler around \<^verbatim>\<open>subprocess.run\<close>: an exception leaves the
  function, here as \<open>Inl\<close> of the exception and the state it was raised in.
\<close>

definition clone_repo ::
  "'w ext \<Rightarrow> string \<Rightarrow> string \<Rightarrow> string \<Rightarrow> string \<Rightarrow> 'w st
     \<Rightarrow> (string \<times> 'w st) + (bool \<times> 'w st)" where
  "clone_repo ext owner repo dest_path protocol s =
     (let url = build_github_url owner repo protocol;
          (ran, w) = x_git_clone ext url dest_path (world s);
          s1 = emit (GitClone url dest_path) (s\<lparr>world := w\<rparr>)
      in case ran of
           Inl raised \<Rightarrow> Inl (raised, s1)
         | Inr result \<Rightarrow>
             Inr (if returncode result \<noteq> 0 then
                    (if str_contains ''already exists'' (stderr result)
                     then (True, print_warning
                             (''Repository '' @ repo @ '' already exists at '' @ dest_path) s1)
                     else (False, print_error
                             (''Failed to clone '' @ owner @ ''/'' @ repo @ '': '' @ stderr result) s1))
                  else (True, print_success (''Cloned '' @ owner @ ''/'' @ repo) s1)))"

section \<open>sync.py: the snapshots and the apply step\<close>

text \<open>
  \<^verbatim>\<open>get_local_repos\<close>: for every configured organization the entry is reset to the
  empty dictionary and then filled with the git working copies found in its folder.
\<close>

definition scan_org :: "'w ext \<Rightarrow> path \<Rightarrow> 'w st \<Rightarrow> (string, path) dict" where
  "scan_org ext org_path s =
     fold (\<lambda>item d.
        if x_is_dir ext item (world s) \<and> is_git_repo ext item s
        then AList.update (path_name item) item d else d)
       (x_iterdir ext org_path (world s)) []"

definition get_local_repos :: "'w ext \<Rightarrow> config \<Rightarrow> 'w st \<Rightarrow> local_map" where
  "get_local_repos ext cfg s =
     fold (\<lambda>org result.
        (let org_path = get_org_path cfg org in
         if \<not> x_exists ext org_path (world s) then AList.update org [] result
         else AList.update org (scan_org ext org_path s) result))
       (organizations cfg) []"

text \<open>
  \<^verbatim>\<open>get_github_repos\<close>: the repositories listed for an organization are stored under
  their names unless the name is in \<^verbatim>\<open>config.exclude_repos\<close>.
\<close>

definition keep_repos :: "config \<Rightarrow> repository list \<Rightarrow> (string, repository) dict" where
  "keep_repos cfg repos =
     fold (\<lambda>repo d.
        if r_name repo \<notin> set (exclude_repos cfg) then AList.update (r_name repo) repo d else d)
       repos []"

definition get_github_repos :: "'w ext \<Rightarrow> config \<Rightarrow> 'w st \<Rightarrow> github_map \<times> 'w st" where
  "get_github_repos ext cfg s =
     fold (\<lambda>org (result, s).
        (let (repos, s1) = list_org_repos ext org s
         in (AList.update org (keep_repos cfg repos) result, s1)))
       (organizations cfg) ([], s)"

record sync_result =
  cloned :: "string list"
  moved :: "(string \<times> string \<times> string) list"
  orphaned :: "string list"
  errors :: "string list"

text \<open>The body of the loop over the misplaced findings.\<close>

definition handle_misplaced ::
  "'w ext \<Rightarrow> config \<Rightarrow> bool \<Rightarrow> string \<times> string \<times> string \<times> path
     \<Rightarrow> sync_result \<times> 'w st \<Rightarrow> sync_result \<times> 'w st" where
  "handle_misplaced ext cfg dry_run = (\<lambda>(repo_name, from_org, to_org, current_path) (result, s).
     if dry_run then
       (result\<lparr>moved := moved result @ [(repo_name, from_org, to_org)]\<rparr>,
        print_info (''Would move '' @ repo_name @ '': '' @ from_org @ '' -> '' @ to_org) s)
     else
       (let new_path = get_repo_path cfg to_org repo_name;
            s1 = print_info (''Moving '' @ repo_name @ '': '' @ from_org @ '' -> '' @ to_org) s;
            (raised, w) = x_move ext (path_str current_path) (path_str new_path) (world s1);
            s2 = emit (ShutilMove (path_str current_path) (path_str new_path)) (s1\<lparr>world := w\<rparr>)
        in case raised of
             Some e \<Rightarrow>
               (let error_msg = ''Failed to move '' @ repo_name @ '': '' @ e
                in (result\<lparr>errors := errors result @ [error_msg]\<rparr>, print_error error_msg s2))
           | None \<Rightarrow>
               (let s3 = (if auto_update_remotes cfg
                          then snd (set_repo_remote_url ext new_path
                                 (build_github_url to_org repo_name (clone_protocol cfg)) s2)
                          else s2)
                in (result\<lparr>moved := moved result @ [(repo_name, from_org, to_org)]\<rparr>,
                    print_success (''Moved '' @ repo_name @ '' to '' @ to_org) s3))))"

text \<open>
  The body of the loop over the missing findings, and the loop. Neither has a handler:
  an exception of \<^verbatim>\<open>clone_repo\<close> ends the loop, and the findings after it are not
  looked at.
\<close>

definition handle_missing ::
  "'w ext \<Rightarrow> config \<Rightarrow> bool \<Rightarrow> string \<times> string \<times> repository
     \<Rightarrow> sync_result \<times> 'w st \<Rightarrow> (string \<times> 'w st) + (sync_result \<times> 'w st)" where
  "handle_missing ext cfg dry_run = (\<lambda>(org, repo_name, repo) (result, s).
     (let dest_path = get_repo_path cfg org repo_name in
      if dry_run then
        Inr (result\<lparr>cloned := cloned result @ [org @ ''/'' @ repo_name]\<rparr>,
             print_info (''Would clone '' @ org @ ''/'' @ repo_name) s)
      else
        (case clone_repo ext org repo_name (path_str dest_path) (clone_protocol cfg) s of
           Inl raised \<Rightarrow> Inl raised
         | Inr (ok, s1) \<Rightarrow>
             Inr (if ok then (result\<lparr>cloned := cloned result @ [org @ ''/'' @ repo_name]\<rparr>, s1)
                  else (result\<lparr>errors := errors result
                                  @ [''Failed to clone '' @ org @ ''/'' @ repo_name]\<rparr>, s1)))))"

fun clone_loop ::
  "'w ext \<Rightarrow> config \<Rightarrow> bool \<Rightarrow> (string \<times> string \<times> repository) list
     \<Rightarrow> sync_result \<times> 'w st \<Rightarrow> (string \<times> 'w st) + (sync_result \<times> 'w st)" where
  "clone_loop ext cfg dry_run [] a = Inr a"
| "clone_loop ext cfg dry_run (m # ms) a =
     (case handle_missing ext cfg dry_run m a of
        Inl raised \<Rightarrow> Inl raised
      | Inr a' \<Rightarrow> clone_loop ext cfg dry_run ms a')"

text \<open>The body of the loop over the orphaned findings.\<close>

definition handle_orphaned ::
  "string \<times> string \<times> path \<Rightarrow> sync_result \<times> 'w st \<Rightarrow> sync_result \<times> 'w st" where
  "handle_orphaned = (\<lambda>(org, repo_name, path) (result, s).
     (result\<lparr>orphaned := orphaned result @ [org @ ''/'' @ repo_name]\<rparr>,
      print_warning (''Orphaned repo (not on GitHub): '' @ org @ ''/'' @ repo_name) s))"

definition make_org_dirs :: "'w ext \<Rightarrow> config \<Rightarrow> 'w st \<Rightarrow> 'w st" where
  "make_org_dirs ext cfg s =
     fold (\<lambda>org s. emit (Mkdir (get_org_path cfg org))
                     (s\<lparr>world := x_mkdir ext (get_org_path cfg org) (world s)\<rparr>))
       (organizations cfg) s"

text \<open>
  \<^verbatim>\<open>sync_github_to_local\<close>. \<open>sync_snapshots\<close> is the first part, up to the creation of
  the organization folders; it returns the two snapshots, which the three loops then
  read without looking at the file system again.
\<close>

definition sync_snapshots ::
  "'w ext \<Rightarrow> config \<Rightarrow> bool \<Rightarrow> 'w st \<Rightarrow> local_map \<times> github_map \<times> 'w st" where
  "sync_snapshots ext cfg dry_run s =
     (let s1 = print_info ''Fetching repository information...'' s;
          local_repos = get_local_repos ext cfg s1;
          (github_repos, s2) = get_github_repos ext cfg s1;
          s3 = (if \<not> dry_run then make_org_dirs ext cfg s2 else s2)
      in (local_repos, github_repos, s3))"

definition sync_github_to_local ::
  "'w ext \<Rightarrow> config \<Rightarrow> bool \<Rightarrow> bool \<Rightarrow> bool \<Rightarrow> 'w st
     \<Rightarrow> (string \<times> 'w st) + (sync_result \<times> 'w st)" where
  "sync_github_to_local ext cfg clone_missing move_misplaced dry_run s =
     (let (local_repos, github_repos, s3) = sync_snapshots ext cfg dry_run s;
          result = \<lparr>cloned = [], moved = [], orphaned = [], errors = []\<rparr>;
          a = (if move_misplaced
               then fold (handle_misplaced ext cfg dry_run)
                      (find_misplaced_repos local_repos github_repos) (result, s3)
               else (result, s3))
      in case (if clone_missing
               then clone_loop ext cfg dry_run (find_missing_repos local_repos github_repos) a
               else Inr a) of
           Inl raised \<Rightarrow> Inl raised
         | Inr b \<Rightarrow> Inr (fold handle_orphaned (find_orphaned_repos local_repos github_repos) b))"

section \<open>watcher.py\<close>

text \<open>
  A file system notification is a \<^verbatim>\<open>DirMovedEvent\<close> with its two paths, or any other
  event. The handler keeps \<^verbatim>\<open>pending_moves\<close>, the time of the last dispatched sighting
  of each move key. \<^verbatim>\<open>on_moved\<close> is called by the observer for one event at a time;
  the thread it starts for an accepted move is recorded in the trace and runs
  \<open>process_move\<close>.
\<close>

datatype fs_event = DirMovedEvent path path | OtherEvent

record handler =
  pending_moves :: "string \<rightharpoonup> real"

definition debounce_seconds :: real where
  "debounce_seconds = 2"

definition get_org_from_path :: "config \<Rightarrow> path \<Rightarrow> string option" where
  "get_org_from_path cfg p =
     (case relative_to p (base_path cfg) of
        None \<Rightarrow> None
      | Some parts \<Rightarrow> (case parts of [] \<Rightarrow> None | part # _ \<Rightarrow> Some part))"

definition is_direct_child :: "path \<Rightarrow> path \<Rightarrow> bool" where
  "is_direct_child p parent =
     (case relative_to p parent of None \<Rightarrow> False | Some parts \<Rightarrow> length parts = 1)"

definition move_key :: "path \<Rightarrow> path \<Rightarrow> string" where
  "move_key src_path dest_path = path_str src_path @ '':'' @ path_str dest_path"

text \<open>The last step of \<^verbatim>\<open>on_moved\<close>, under the lock: the debounce and the dispatch.\<close>

definition debounce ::
  "'w ext \<Rightarrow> string \<Rightarrow> string \<Rightarrow> path \<Rightarrow> path \<Rightarrow> handler \<times> 'w st \<Rightarrow> handler \<times> 'w st" where
  "debounce ext src_org dest_org src_path dest_path = (\<lambda>(h, s).
     (let key = move_key src_path dest_path;
          (now, s1) = time_time ext s
      in if (case pending_moves h key of
               Some seen \<Rightarrow> x_fsub ext now seen < debounce_seconds
             | None \<Rightarrow> False)
         then (h, s1)
         else (h\<lparr>pending_moves := (pending_moves h)(key \<mapsto> now)\<rparr>,
               emit (ThreadStart src_org dest_org src_path dest_path) s1)))"

definition on_moved :: "'w ext \<Rightarrow> config \<Rightarrow> fs_event \<Rightarrow> handler \<times> 'w st \<Rightarrow> handler \<times> 'w st" where
  "on_moved ext cfg event = (\<lambda>(h, s).
     (case event of
        OtherEvent \<Rightarrow> (h, s)
      | DirMovedEvent src_path dest_path \<Rightarrow>
          (case get_org_from_path cfg src_path of
             None \<Rightarrow> (h, s)
           | Some src_org \<Rightarrow>
               (case get_org_from_path cfg dest_path of
                  None \<Rightarrow> (h, s)
                | Some dest_org \<Rightarrow>
                    if src_org = [] \<or> dest_org = [] then (h, s)
                    else if \<not> is_direct_child src_path (base_path cfg @ [src_org]) then (h, s)
                    else if \<not> is_direct_child dest_path (base_path cfg @ [dest_org]) then (h, s)
                    else if src_org = dest_org then
                      (h, print_info (''Repo renamed within '' @ src_org @ '': ''
                            @ path_name src_path @ '' -> '' @ path_name dest_path) s)
                    else if \<not> is_git_repo ext dest_path s then
                      (h, print_warning (''Moved folder is not a git repo: '' @ path_str dest_path) s)
                    else debounce ext src_org dest_org src_path dest_path (h, s)))))"

text \<open>
  \<^verbatim>\<open>_process_move\<close>. \<open>finish_move\<close> is the branch taken once the transfer request has
  succeeded and \<^verbatim>\<open>wait_for_transfer\<close> has answered. The observer \<^verbatim>\<open>on_transfer\<close>
  is optional; calling it is recorded in the trace and changes the world as the observer
  says.
\<close>

type_synonym 'w observer = "string \<Rightarrow> string \<Rightarrow> string \<Rightarrow> 'w \<Rightarrow> 'w"

definition finish_move ::
  "'w ext \<Rightarrow> config \<Rightarrow> 'w observer option \<Rightarrow> string \<Rightarrow> string \<Rightarrow> string \<Rightarrow> path
     \<Rightarrow> bool \<Rightarrow> 'w st \<Rightarrow> 'w st" where
  "finish_move ext cfg on_transfer src_org dest_org repo dest_path confirmed s =
     (if confirmed then
        (let s1 = (if auto_update_remotes cfg then
                     (let new_url = build_github_url dest_org repo (clone_protocol cfg);
                          (ok, s') = set_repo_remote_url ext dest_path new_url s
                      in if ok then print_success (''Updated remote URL to '' @ new_url) s'
                         else print_warning ''Could not update remote URL automatically'' s')
                   else s)
         in case on_transfer of
              Some observer \<Rightarrow>
                emit (OnTransfer src_org dest_org repo)
                  (s1\<lparr>world := observer src_org dest_org repo (world s1)\<rparr>)
            | None \<Rightarrow> s1)
      else print_warning
             (''Transfer may still be in progress. ''
              @ ''Remote URL not updated - do this manually if needed.'') s)"

definition process_move ::
  "'w ext \<Rightarrow> nat \<Rightarrow> config \<Rightarrow> 'w observer option \<Rightarrow> string \<Rightarrow> string \<Rightarrow> path \<Rightarrow> path
     \<Rightarrow> 'w st \<Rightarrow> 'w st option" where
  "process_move ext fuel cfg on_transfer src_org dest_org src_path dest_path s =
     (let repo_name = path_name dest_path;
          (remote_url, s1) = get_repo_remote_url ext dest_path s
      in case remote_url of
           None \<Rightarrow> Some (print_error (''Could not get remote URL for '' @ repo_name) s1)
         | Some url \<Rightarrow>
             if url = [] then Some (print_error (''Could not get remote URL for '' @ repo_name) s1)
             else
               (case parse_github_remote url of
                  None \<Rightarrow> Some (print_error (''Could not parse GitHub remote URL: '' @ url) s1)
                | Some (current_owner, repo) \<Rightarrow>
                    if current_owner \<noteq> src_org then
                      Some (print_warning
                        (''Repo '' @ repo @ '' remote shows owner as '' @ current_owner @ '', ''
                         @ ''but was moved from '' @ src_org @ ''. Skipping transfer.'') s1)
                    else
                      (let s2 = print_info (''Detected move: '' @ src_org @ ''/'' @ repo @ '' -> ''
                                   @ dest_org @ ''/'' @ repo) s1;
                           (requested, s3) = transfer_repo ext src_org repo dest_org s2
                       in if requested then
                            (case wait_for_transfer ext fuel dest_org repo 120 s3 of
                               None \<Rightarrow> None
                             | Some (confirmed, s4) \<Rightarrow>
                                 Some (finish_move ext cfg on_transfer src_org dest_org repo
                                         dest_path confirmed s4))
                          else Some s3)))"

section \<open>An environment for the examples\<close>

text \<open>
  A small world to run the model in: a clock, the time a \<^verbatim>\<open>gh\<close> command takes, the
  replies the next \<^verbatim>\<open>gh\<close> and \<^verbatim>\<open>git clone\<close> commands will give, and the
  \<^verbatim>\<open>origin\<close> URL of the working copies. Every directory exists and is a git working
  copy, \<^verbatim>\<open>time.sleep\<close> advances the clock by its argument, and the decoder knows one
  listing. The time stamps of the examples are small integers, on which the subtraction
  of floats is exact.
\<close>

record demo_world =
  dw_clock :: real
  dw_latency :: real
  dw_gh :: "completed_process list"
  dw_clone :: "(string + completed_process) list"
  dw_origin :: "string option"

definition reply :: "int \<Rightarrow> string \<Rightarrow> string \<Rightarrow> completed_process" where
  "reply rc out err = \<lparr>returncode = rc, stdout = out, stderr = err\<rparr>"

definition next_reply :: "completed_process list \<Rightarrow> completed_process" where
  "next_reply rs = (case rs of [] \<Rightarrow> reply 1 [] ''not found'' | r # _ \<Rightarrow> r)"

definition next_clone :: "(string + completed_process) list \<Rightarrow> string + completed_process" where
  "next_clone rs = (case rs of [] \<Rightarrow> Inr (reply 0 [] []) | r # _ \<Rightarrow> r)"

definition demo_decode :: "string \<Rightarrow> repository list option" where
  "demo_decode out =
     (if out = ''acme''
      then Some [example_repo ''acme'' ''.github'', example_repo ''acme'' ''web'',
                 example_repo ''acme'' ''api'']
      else None)"

definition demo_ext :: "demo_world ext" where
  "demo_ext =
     \<lparr>x_gh = (\<lambda>args w. (next_reply (dw_gh w),
                 w\<lparr>dw_clock := dw_clock w + dw_latency w, dw_gh := tl (dw_gh w)\<rparr>)),
      x_git_clone = (\<lambda>url dest w. (next_clone (dw_clone w), w\<lparr>dw_clone := tl (dw_clone w)\<rparr>)),
      x_git_get_url = (\<lambda>p w. (dw_origin w, w)),
      x_git_set_url = (\<lambda>p url w. (True, w\<lparr>dw_origin := Some url\<rparr>)),
      x_is_dir = (\<lambda>p w. True),
      x_exists = (\<lambda>p w. True),
      x_iterdir = (\<lambda>p w. []),
      x_mkdir = (\<lambda>p w. w),
      x_move = (\<lambda>src dst w. (None, w)),
      x_time = (\<lambda>w. (dw_clock w, w)),
      x_sleep = (\<lambda>secs w. w\<lparr>dw_clock := dw_clock w + secs\<rparr>),
      x_fsub = (\<lambda>a b. a - b),
      x_decode_repos = demo_decode\<rparr>"

definition demo_world ::
  "completed_process list \<Rightarrow> (string + completed_process) list \<Rightarrow> string option \<Rightarrow> demo_world" where
  "demo_world ghs clones url =
     \<lparr>dw_clock = 0, dw_latency = 60, dw_gh = ghs, dw_clone = clones, dw_origin = url\<rparr>"

definition demo_state :: "demo_world \<Rightarrow> demo_world st" where
  "demo_state w = \<lparr>world = w, trace = []\<rparr>"

definition demo_config :: config where
  "demo_config =
     \<lparr>base_path = [''orgs''], organizations = [''acme''], sync_interval = 300,
      exclude_repos = [''.github''], auto_update_remotes = True, clone_protocol = ''ssh''\<rparr>"

lemmas demo_defs = demo_ext_def demo_world_def demo_state_def demo_config_def demo_decode_def
  reply_def next_reply_def next_clone_def

lemmas io_defs = emit_def print_info_def print_success_def print_warning_def print_error_def
  run_gh_command_def is_git_repo_def time_time_def time_sleep_def

lemmas sync_defs = sync_snapshots_def get_local_repos_def get_github_repos_def list_org_repos_def
  keep_repos_def make_org_dirs_def scan_org_def get_org_path_def get_repo_path_def
  find_misplaced_repos_def find_missing_repos_def find_orphaned_repos_def github_locations_def
  locate_all_def github_repo_names_def dict_get_def dict_keys_def

section \<open>Exclusion (claim C3)\<close>

lemma update_mem:
  "(a, b) \<in> set (AList.update k v al) \<Longrightarrow> (a, b) = (k, v) \<or> (a, b) \<in> set al"
  by (induction al) (auto split: if_splits)

lemma keep_repos_fold_keys:
  "n \<in> set (exclude_repos cfg) \<Longrightarrow> n \<notin> fst ` set d \<Longrightarrow>
   n \<notin> fst ` set (fold (\<lambda>repo d.
        if r_name repo \<notin> set (exclude_repos cfg) then AList.update (r_name repo) repo d else d)
       repos d)"
proof (induction repos arbitrary: d)
  case Nil
  then show ?case by simp
next
  case (Cons r repos)
  show ?case
  proof (cases "r_name r \<in> set (exclude_repos cfg)")
    case True
    with Cons show ?thesis by simp
  next
    case False
    with Cons.prems have "n \<notin> fst ` set (AList.update (r_name r) r d)"
      by (auto simp: dom_update)
    from Cons.IH[OF Cons.prems(1) this] False show ?thesis by simp
  qed
qed

lemma keep_repos_excluded:
  "n \<in> set (exclude_repos cfg) \<Longrightarrow> n \<notin> set (dict_keys (keep_repos cfg repos))"
  using keep_repos_fold_keys[of n cfg "[]" repos] by (simp add: keep_repos_def dict_keys_def)

lemma github_fold_excluded:
  assumes "n \<in> set (exclude_repos cfg)"
    and "\<And>org repos. (org, repos) \<in> set G0 \<Longrightarrow> n \<notin> set (dict_keys repos)"
    and "fold (\<lambda>org (result, s).
        (let (repos, s1) = list_org_repos ext org s
         in (AList.update org (keep_repos cfg repos) result, s1))) orgs (G0, s) = (G, s')"
    and "(org, repos) \<in> set G"
  shows "n \<notin> set (dict_keys repos)"
  using assms(2-)
proof (induction orgs arbitrary: G0 s)
  case Nil
  then show ?case by auto
next
  case (Cons o1 orgs)
  obtain rs s1 where l: "list_org_repos ext o1 s = (rs, s1)" by (cases "list_org_repos ext o1 s")
  have step: "\<And>org repos. (org, repos) \<in> set (AList.update o1 (keep_repos cfg rs) G0)
       \<Longrightarrow> n \<notin> set (dict_keys repos)"
    using Cons.prems(1) keep_repos_excluded[OF assms(1), of rs] by (auto dest!: update_mem)
  from Cons.prems(2) l have
    "fold (\<lambda>org (result, s).
        (let (repos, s1) = list_org_repos ext org s
         in (AList.update org (keep_repos cfg repos) result, s1))) orgs
        (AList.update o1 (keep_repos cfg rs) G0, s1) = (G, s')" by simp
  from Cons.IH[OF step this Cons.prems(3)] show ?case .
qed

lemma excluded_not_remote:
  assumes "n \<in> set (exclude_repos cfg)" and "get_github_repos ext cfg s = (G, s')"
  shows "n \<notin> remote_names G"
proof -
  have "\<And>org repos. (org, repos) \<in> set G \<Longrightarrow> n \<notin> set (dict_keys repos)"
    using github_fold_excluded[OF assms(1) _ assms(2)[unfolded get_github_repos_def]] by simp
  then show ?thesis by (auto simp: remote_names_def)
qed

lemma missing_names_remote: "n \<in> missing_names L G \<Longrightarrow> n \<in> remote_names G"
  by (force simp: missing_names_def set_find_missing remote_names_def dict_keys_def)

lemma misplaced_names_remote: "n \<in> misplaced_names L G \<Longrightarrow> n \<in> remote_names G"
  using github_locations_dom[of G] by (auto simp: misplaced_names_def set_find_misplaced)

lemma orphaned_names_iff:
  "n \<in> orphaned_names L G \<longleftrightarrow>
     (\<exists>org repos p. (org, repos) \<in> set L \<and> (n, p) \<in> set repos) \<and> n \<notin> remote_names G"
  by (force simp: orphaned_names_def set_find_orphaned)

text \<open>
  Claim C3. For every exclude list, a name in it is absent from the remote snapshot
  that \<^verbatim>\<open>get_github_repos\<close> returns, so for every local snapshot it is neither in the
  Missing nor in the Misplaced findings; and when a local organization folder holds
  it, it is in the Orphaned findings.
\<close>

theorem exclusion_semantics:
  assumes "n \<in> set (exclude_repos cfg)" and "get_github_repos ext cfg s = (G, s')"
  shows "n \<notin> missing_names L G \<and> n \<notin> misplaced_names L G
       \<and> ((\<exists>org repos p. (org, repos) \<in> set L \<and> (n, p) \<in> set repos) \<longrightarrow> n \<in> orphaned_names L G)"
  using excluded_not_remote[OF assms] missing_names_remote[of n L G] misplaced_names_remote[of n L G]
  by (auto simp: orphaned_names_iff)

lemma demo_github:
  "fst (get_github_repos demo_ext demo_config (demo_state (demo_world [reply 0 ''acme'' []] [] None)))
     = [(''acme'', [(''web'', example_repo ''acme'' ''web''), (''api'', example_repo ''acme'' ''api'')])]"
  by (simp add: get_github_repos_def list_org_repos_def keep_repos_def demo_defs io_defs example_repo_def)

theorem exclusion_semantics_witness:
  "''.github'' \<in> set (exclude_repos demo_config)
   \<and> fst (get_github_repos demo_ext demo_config (demo_state (demo_world [reply 0 ''acme'' []] [] None)))
       = [(''acme'', [(''web'', example_repo ''acme'' ''web''), (''api'', example_repo ''acme'' ''api'')])]
   \<and> ''.github'' \<notin> missing_names [(''acme'', [(''.github'', [''orgs'', ''acme'', ''.github''])])]
         [(''acme'', [(''web'', example_repo ''acme'' ''web''), (''api'', example_repo ''acme'' ''api'')])]
   \<and> ''.github'' \<notin> misplaced_names [(''acme'', [(''.github'', [''orgs'', ''acme'', ''.github''])])]
         [(''acme'', [(''web'', example_repo ''acme'' ''web''), (''api'', example_repo ''acme'' ''api'')])]
   \<and> ''.github'' \<in> orphaned_names [(''acme'', [(''.github'', [''orgs'', ''acme'', ''.github''])])]
         [(''acme'', [(''web'', example_repo ''acme'' ''web''), (''api'', example_repo ''acme'' ''api'')])]"
proof -
  let ?s = "demo_state (demo_world [reply 0 ''acme'' []] [] None)"
  let ?G = "[(''acme'', [(''web'', example_repo ''acme'' ''web''), (''api'', example_repo ''acme'' ''api'')])]"
  let ?L = "[(''acme'', [(''.github'', [''orgs'', ''acme'', ''.github''])])]"
  have e: "''.github'' \<in> set (exclude_repos demo_config)" by (simp add: demo_config_def)
  obtain s' where g: "get_github_repos demo_ext demo_config ?s = (?G, s')"
    using demo_github by (cases "get_github_repos demo_ext demo_config ?s") auto
  have l: "\<exists>org repos p. (org, repos) \<in> set ?L \<and> (''.github'', p) \<in> set repos" by simp
  from exclusion_semantics[OF e g, of ?L] l e demo_github show ?thesis by blast
qed

section \<open>Cloning the missing repositories (claim C8)\<close>

text \<open>The clone attempts of a trace.\<close>

fun is_git_clone :: "event \<Rightarrow> bool" where
  "is_git_clone (GitClone url dest) = True"
| "is_git_clone _ = False"

text \<open>
  A world in which \<^verbatim>\<open>gh\<close> lists nothing and the program \<^verbatim>\<open>git\<close> cannot be started:
  \<^verbatim>\<open>subprocess.run\<close> raises \<^verbatim>\<open>FileNotFoundError\<close> instead of returning a completed
  process.
\<close>

definition demo_no_git :: "demo_world st" where
  "demo_no_git =
     demo_state (demo_world [reply 0 ''acme'' []]
       [Inl ''FileNotFoundError: [Errno 2] No such file or directory: git''] None)"

subsection \<open>What a clone attempt records\<close>

text \<open>
  When \<^verbatim>\<open>subprocess.run\<close> returns, \<^verbatim>\<open>clone_repo\<close> answers true on exit status 0 and on
  an \<^verbatim>\<open>already exists\<close> in the error output, false otherwise; when it raises, the
  exception leaves \<^verbatim>\<open>clone_repo\<close>. A loop that comes to its end has added one entry,
  to \<^verbatim>\<open>cloned\<close> or to \<^verbatim>\<open>errors\<close>, for each Missing finding; an exception in
  one attempt is the result of the whole loop.
\<close>

lemma clone_repo_returns:
  assumes "x_git_clone ext (build_github_url owner repo protocol) dest (world s) = (Inr r, w)"
  shows "\<exists>s1. clone_repo ext owner repo dest protocol s
           = Inr (returncode r = 0 \<or> str_contains ''already exists'' (stderr r), s1)"
  using assms by (simp add: clone_repo_def Let_def)

lemma clone_repo_raises:
  assumes "x_git_clone ext (build_github_url owner repo protocol) dest (world s) = (Inl e, w)"
  shows "clone_repo ext owner repo dest protocol s
           = Inl (e, emit (GitClone (build_github_url owner repo protocol) dest) (s\<lparr>world := w\<rparr>))"
  using assms by (simp add: clone_repo_def Let_def)

lemma handle_missing_recorded:
  assumes "handle_missing ext cfg False m (res, s) = Inr (res', s')"
  shows "length (cloned res') + length (errors res') = Suc (length (cloned res) + length (errors res))
       \<and> moved res' = moved res \<and> orphaned res' = orphaned res"
  using assms
  by (cases m) (auto simp: handle_missing_def Let_def split: sum.splits prod.splits if_splits)

lemma clone_loop_recorded:
  "clone_loop ext cfg False ms (res, s) = Inr (res', s') \<Longrightarrow>
     length (cloned res') + length (errors res')
       = length (cloned res) + length (errors res) + length ms
   \<and> moved res' = moved res \<and> orphaned res' = orphaned res"
proof (induction ms arbitrary: res s)
  case Nil
  then show ?case by simp
next
  case (Cons m ms)
  from Cons.prems obtain res1 s1 where h: "handle_missing ext cfg False m (res, s) = Inr (res1, s1)"
    and l: "clone_loop ext cfg False ms (res1, s1) = Inr (res', s')"
    by (auto split: sum.splits)
  from handle_missing_recorded[OF h] Cons.IH[OF l] show ?case by simp
qed

lemma clone_loop_raises:
  "handle_missing ext cfg dry m a = Inl e \<Longrightarrow> clone_loop ext cfg dry (m # ms) a = Inl e"
  by simp

text \<open>
  Claim C8 does not hold of the code: a clone failure is not always recorded as an
  error for that repository only. With \<^verbatim>\<open>clone_missing\<close> set and \<^verbatim>\<open>dry_run\<close> unset,
  the local folder of \<^verbatim>\<open>acme\<close> empty and \<^verbatim>\<open>acme/web\<close> and \<^verbatim>\<open>acme/api\<close> on GitHub,
  both repositories are Missing findings. When \<^verbatim>\<open>git\<close> cannot be started, the first
  attempt raises; neither \<^verbatim>\<open>clone_repo\<close> nor the loop over the findings catches it
  (the loop over the Misplaced findings, just above in the same function, does), so
  \<^verbatim>\<open>sync_github_to_local\<close> ends with the exception: it returns no result, records no
  error entry, and never attempts \<^verbatim>\<open>acme/api\<close>.
\<close>

theorem clone_exception_aborts:
  "find_missing_repos [(''acme'', [])]
       [(''acme'', [(''web'', example_repo ''acme'' ''web''), (''api'', example_repo ''acme'' ''api'')])]
     = [(''acme'', ''web'', example_repo ''acme'' ''web''), (''acme'', ''api'', example_repo ''acme'' ''api'')]
   \<and> fst (sync_snapshots demo_ext demo_config False demo_no_git) = [(''acme'', [])]
   \<and> fst (snd (sync_snapshots demo_ext demo_config False demo_no_git))
       = [(''acme'', [(''web'', example_repo ''acme'' ''web''), (''api'', example_repo ''acme'' ''api'')])]
   \<and> (\<exists>s. sync_github_to_local demo_ext demo_config True True False demo_no_git
            = Inl (''FileNotFoundError: [Errno 2] No such file or directory: git'', s)
          \<and> filter is_git_clone (trace s) = [GitClone ''git@github.com:acme/web.git'' ''/orgs/acme/web''])"
  by (simp add: sync_github_to_local_def handle_missing_def clone_repo_def build_github_url_def
      path_str_def demo_no_git_def sync_defs demo_defs io_defs example_repo_def Let_def)

section \<open>The move workflow and the detector (claims C4 to C7 and C9)\<close>

text \<open>The calls a trace is asked about.\<close>

fun is_set_url :: "event \<Rightarrow> bool" where
  "is_set_url (SetRemoteUrl p url) = True"
| "is_set_url _ = False"

fun is_observer_call :: "event \<Rightarrow> bool" where
  "is_observer_call (OnTransfer src_org dest_org repo) = True"
| "is_observer_call _ = False"

fun is_gh_command :: "event \<Rightarrow> bool" where
  "is_gh_command (RunGh args) = True"
| "is_gh_command _ = False"

fun is_thread_start :: "event \<Rightarrow> bool" where
  "is_thread_start (ThreadStart src_org dest_org src_path dest_path) = True"
| "is_thread_start _ = False"





text \<open>An accepted move of the examples: \<^verbatim>\<open>acme/svc\<close> to \<^verbatim>\<open>beta/svc\<close>.\<close>

definition demo_src :: path where "demo_src = [''orgs'', ''acme'', ''svc'']"
definition demo_dest :: path where "demo_dest = [''orgs'', ''beta'', ''svc'']"

definition demo_detected :: "demo_world \<Rightarrow> demo_world st" where
  "demo_detected w =
     print_info (''Detected move: '' @ ''acme'' @ ''/'' @ ''svc'' @ '' -> '' @ ''beta'' @ ''/'' @ ''svc'')
       \<lparr>world = w, trace = [GetRemoteUrl demo_dest]\<rparr>"






lemmas move_defs = demo_src_def demo_dest_def get_repo_remote_url_def str_strip_def isspace_def

subsection \<open>What each step adds to the trace\<close>

lemma trace_get_repo_remote_url:
  "trace (snd (get_repo_remote_url ext p s)) = trace s @ [GetRemoteUrl p]"
  by (simp add: get_repo_remote_url_def emit_def Let_def split: prod.splits option.splits)

lemma trace_run_gh_command:
  "trace (snd (run_gh_command ext args s)) = trace s @ [RunGh args]"
  by (simp add: run_gh_command_def emit_def split: prod.splits)

lemma trace_transfer_repo:
  "\<exists>lvl msg. trace (snd (transfer_repo ext owner repo new_owner s)) =
     trace s @ [Print Info (''Transferring '' @ owner @ ''/'' @ repo @ '' to '' @ new_owner @ ''...''),
                RunGh [''api'', ''/repos/'' @ owner @ ''/'' @ repo @ ''/transfer'', ''-X'', ''POST'', ''-f'',
                       ''new_owner='' @ new_owner],
                Print lvl msg]"
  by (auto simp: transfer_repo_def run_gh_command_def io_defs Let_def split: prod.splits)

lemma quiet_transfer_repo:
  "filter is_set_url (trace (snd (transfer_repo ext owner repo new_owner s))) = filter is_set_url (trace s)
 \<and> filter is_observer_call (trace (snd (transfer_repo ext owner repo new_owner s)))
     = filter is_observer_call (trace s)"
  using trace_transfer_repo[of ext owner repo new_owner s] by auto

lemma quiet_wait_loop:
  "wait_loop ext fuel new_owner repo timeout start_time s = Some (c, s') \<Longrightarrow>
     filter is_set_url (trace s') = filter is_set_url (trace s)
   \<and> filter is_observer_call (trace s') = filter is_observer_call (trace s)"
proof (induction fuel arbitrary: s)
  case 0
  then show ?case by simp
next
  case (Suc fuel)
  obtain now s1 where t: "time_time ext s = (now, s1)" by (cases "time_time ext s")
  then have t1: "trace s1 = trace s" by (auto simp: time_time_def split: prod.splits)
  show ?case
  proof (cases "x_fsub ext now start_time < real_of_int timeout")
    case False
    with Suc.prems t t1 show ?thesis by (auto simp: print_warning_def emit_def)
  next
    case True
    obtain result s2 where g: "run_gh_command ext
               [''repo'', ''view'', new_owner @ ''/'' @ repo, ''--json'', ''name''] s1 = (result, s2)"
      by (cases "run_gh_command ext [''repo'', ''view'', new_owner @ ''/'' @ repo, ''--json'', ''name''] s1")
    with trace_run_gh_command[of ext "[''repo'', ''view'', new_owner @ ''/'' @ repo, ''--json'', ''name'']" s1] t1
    have t2: "trace s2 = trace s @ [RunGh [''repo'', ''view'', new_owner @ ''/'' @ repo, ''--json'', ''name'']]"
      by simp
    show ?thesis
    proof (cases "returncode result = 0")
      case True
      with Suc.prems t g \<open>x_fsub ext now start_time < real_of_int timeout\<close> t2 show ?thesis
        by (auto simp: print_success_def emit_def)
    next
      case False
      with Suc.prems t g \<open>x_fsub ext now start_time < real_of_int timeout\<close>
      have "wait_loop ext fuel new_owner repo timeout start_time (time_sleep ext 2 s2) = Some (c, s')"
        by simp
      from Suc.IH[OF this] t2 show ?thesis by (simp add: time_sleep_def emit_def)
    qed
  qed
qed

lemma quiet_wait_for_transfer:
  assumes "wait_for_transfer ext fuel new_owner repo timeout s = Some (c, s')"
  shows "filter is_set_url (trace s') = filter is_set_url (trace s)
       \<and> filter is_observer_call (trace s') = filter is_observer_call (trace s)"
proof -
  obtain st s2 where t: "time_time ext (print_info ''Waiting for transfer to complete...'' s) = (st, s2)"
    by (cases "time_time ext (print_info ''Waiting for transfer to complete...'' s)")
  then have t2: "trace s2 = trace s @ [Print Info ''Waiting for transfer to complete...'']"
    by (auto simp: time_time_def print_info_def emit_def split: prod.splits)
  from assms t have "wait_loop ext fuel new_owner repo timeout st s2 = Some (c, s')"
    by (simp add: wait_for_transfer_def)
  from quiet_wait_loop[OF this] t2 show ?thesis by simp
qed

lemma parse_empty: "parse_github_remote [] = None"
  by (simp add: parse_github_remote_def parse_https_remote_def startswith_def)

lemma transfer_repo_pending:
  assumes "x_gh ext [''api'', ''/repos/'' @ owner @ ''/'' @ repo @ ''/transfer'', ''-X'', ''POST'', ''-f'',
               ''new_owner='' @ new_owner] (world s) = (r, w)"
    and "str_contains ''transfer is already pending'' (str_lower (stderr r))"
  shows "transfer_repo ext owner repo new_owner s =
           (True, \<lparr>world = w, trace = trace s @
              [Print Info (''Transferring '' @ owner @ ''/'' @ repo @ '' to '' @ new_owner @ ''...''),
               RunGh [''api'', ''/repos/'' @ owner @ ''/'' @ repo @ ''/transfer'', ''-X'', ''POST'', ''-f'',
                      ''new_owner='' @ new_owner],
               if returncode r \<noteq> 0 then Print Warning (''Transfer already pending for '' @ repo)
               else Print Success (''Transfer initiated for '' @ repo @ '' to '' @ new_owner)]\<rparr>)"
  using assms by (simp add: transfer_repo_def run_gh_command_def io_defs Let_def)

subsection \<open>The events the detector accepts\<close>

lemma on_moved_same_org:
  assumes "get_org_from_path cfg src_path = get_org_from_path cfg dest_path"
  shows "fst (on_moved ext cfg (DirMovedEvent src_path dest_path) (h, s)) = h
       \<and> world (snd (on_moved ext cfg (DirMovedEvent src_path dest_path) (h, s))) = world s
       \<and> filter is_thread_start (trace (snd (on_moved ext cfg (DirMovedEvent src_path dest_path) (h, s))))
           = filter is_thread_start (trace s)"
  using assms by (auto simp: on_moved_def print_info_def emit_def split: option.splits)




subsection \<open>The identity key tells moves apart\<close>










subsection \<open>The poll loop ends\<close>

text \<open>
  When the clock of the world never runs backwards, \<^verbatim>\<open>time.sleep\<close> lasts at least
  as long as asked and the subtraction of floats does not round a difference that has
  reached the timeout to below it, half the timeout plus one reading of the clock is
  enough fuel:
  \<^verbatim>\<open>wait_for_transfer\<close> returns, and so does \<open>process_move\<close> with fuel 61 for its
  timeout of 120.
\<close>

lemma wait_loop_enough_fuel:
  assumes "\<And>w. fst (x_time ext w) = clk w" and "\<And>w. clk w \<le> clk (snd (x_time ext w))"
    and "\<And>args w. clk w \<le> clk (snd (x_gh ext args w))"
    and "\<And>secs w. clk w + secs \<le> clk (x_sleep ext secs w)"
    and "\<And>a b. real_of_int timeout \<le> a - b \<Longrightarrow> real_of_int timeout \<le> x_fsub ext a b"
    and "real_of_int timeout \<le> clk (world s) - start_time + 2 * real n"
  shows "\<exists>r. wait_loop ext (Suc n) new_owner repo timeout start_time s = Some r"
  using assms(6)
proof (induction n arbitrary: s)
  case 0
  have "fst (time_time ext s) = clk (world s)"
    using assms(1)[of "world s"] by (cases "x_time ext (world s)") (simp add: time_time_def)
  moreover from 0 assms(5)[of "clk (world s)" start_time]
  have "\<not> x_fsub ext (clk (world s)) start_time < real_of_int timeout" by simp
  ultimately show ?case by (cases "time_time ext s") (auto simp: Let_def)
next
  case (Suc n)
  obtain now s1 where t: "time_time ext s = (now, s1)" by (cases "time_time ext s")
  then have now: "now = clk (world s)" and w1: "clk (world s) \<le> clk (world s1)"
    using assms(1)[of "world s"] assms(2)[of "world s"]
    by (cases "x_time ext (world s)"; simp add: time_time_def; fastforce)+
  obtain result s2 where g: "run_gh_command ext
       [''repo'', ''view'', new_owner @ ''/'' @ repo, ''--json'', ''name''] s1 = (result, s2)"
    by (cases "run_gh_command ext [''repo'', ''view'', new_owner @ ''/'' @ repo, ''--json'', ''name''] s1")
  then have w2: "clk (world s1) \<le> clk (world s2)"
    using assms(3)[of "world s1" "[''repo'', ''view'', new_owner @ ''/'' @ repo, ''--json'', ''name'']"]
    by (cases "x_gh ext [''repo'', ''view'', new_owner @ ''/'' @ repo, ''--json'', ''name''] (world s1)")
       (auto simp: run_gh_command_def emit_def)
  have w3: "clk (world s2) + 2 \<le> clk (world (time_sleep ext 2 s2))"
    using assms(4)[of "world s2" 2] by (simp add: time_sleep_def emit_def)
  have "real_of_int timeout \<le> clk (world (time_sleep ext 2 s2)) - start_time + 2 * real n"
    using Suc.prems w1 w2 w3 by simp
  from Suc.IH[OF this] obtain r where
    "wait_loop ext (Suc n) new_owner repo timeout start_time (time_sleep ext 2 s2) = Some r" by blast
  then show ?case
    using t g
    by (cases "x_fsub ext now start_time < real_of_int timeout"; cases "returncode result = 0") auto
qed

lemma wait_for_transfer_returns:
  assumes "\<And>w. fst (x_time ext w) = clk w" and "\<And>w. clk w \<le> clk (snd (x_time ext w))"
    and "\<And>args w. clk w \<le> clk (snd (x_gh ext args w))"
    and "\<And>secs w. clk w + secs \<le> clk (x_sleep ext secs w)"
    and "\<And>a b. real_of_int timeout \<le> a - b \<Longrightarrow> real_of_int timeout \<le> x_fsub ext a b"
  shows "\<exists>r. wait_for_transfer ext (Suc (nat \<lceil>real_of_int timeout / 2\<rceil>)) new_owner repo timeout s = Some r"
proof -
  obtain st s2 where t: "time_time ext (print_info ''Waiting for transfer to complete...'' s) = (st, s2)"
    by (cases "time_time ext (print_info ''Waiting for transfer to complete...'' s)")
  then have "st \<le> clk (world s2)"
    using assms(1)[of "world s"] assms(2)[of "world s"]
    by (cases "x_time ext (world s)") (auto simp: time_time_def print_info_def emit_def)
  moreover have "real_of_int timeout \<le> 2 * real (nat \<lceil>real_of_int timeout / 2\<rceil>)"
    by linarith
  ultimately have "real_of_int timeout \<le> clk (world s2) - st + 2 * real (nat \<lceil>real_of_int timeout / 2\<rceil>)"
    by linarith
  from wait_loop_enough_fuel[OF assms this] t show ?thesis
    by (simp add: wait_for_transfer_def)
qed

lemma process_move_returns:
  assumes "\<And>w. fst (x_time ext w) = clk w" and "\<And>w. clk w \<le> clk (snd (x_time ext w))"
    and "\<And>args w. clk w \<le> clk (snd (x_gh ext args w))"
    and "\<And>secs w. clk w + secs \<le> clk (x_sleep ext secs w)"
    and "\<And>a b. 120 \<le> a - b \<Longrightarrow> 120 \<le> x_fsub ext a b"
  shows "\<exists>s'. process_move ext 61 cfg on_transfer src_org dest_org src_path dest_path s = Some s'"
proof -
  have "Suc (nat \<lceil>real_of_int 120 / 2\<rceil>) = 61" by simp
  moreover have "\<And>a b. real_of_int 120 \<le> a - b \<Longrightarrow> real_of_int 120 \<le> x_fsub ext a b"
    using assms(5) by simp
  ultimately have
    "\<And>new_owner repo s. \<exists>r. wait_for_transfer ext 61 new_owner repo 120 s = Some r"
    using wait_for_transfer_returns[OF assms(1-4), of 120] by simp
  then have w: "\<And>new_owner repo s. wait_for_transfer ext 61 new_owner repo 120 s \<noteq> None"
    by fastforce
  obtain ru s1 where g: "get_repo_remote_url ext dest_path s = (ru, s1)"
    by (cases "get_repo_remote_url ext dest_path s")
  show ?thesis
  proof (cases ru)
    case None
    with g show ?thesis by (simp add: process_move_def)
  next
    case (Some url)
    note ru = this
    show ?thesis
    proof (cases "parse_github_remote url")
      case None
      with g ru show ?thesis by (simp add: process_move_def)
    next
      case (Some a)
      obtain current_owner repo where a: "a = (current_owner, repo)" by (cases a)
      obtain requested s3 where tr: "transfer_repo ext src_org repo dest_org
          (print_info (''Detected move: '' @ src_org @ ''/'' @ repo @ '' -> ''
                                   @ dest_org @ ''/'' @ repo) s1) = (requested, s3)"
        by (cases "transfer_repo ext src_org repo dest_org
          (print_info (''Detected move: '' @ src_org @ ''/'' @ repo @ '' -> ''
                                   @ dest_org @ ''/'' @ repo) s1)")
      from w[of dest_org repo s3] obtain c s4 where
        "wait_for_transfer ext 61 dest_org repo 120 s3 = Some (c, s4)" by fastforce
      with g ru Some a tr show ?thesis by (simp add: process_move_def)
    qed
  qed
qed

subsection \<open>Runs of the example environment\<close>

lemma demo_parse: "parse_github_remote ''git@github.com:acme/svc.git'' = Some (''acme'', ''svc'')"
  using parse_ssh_roundtrip[of "''acme''" "''svc''"] by (simp add: build_github_url_def)

lemma demo_parse_other: "parse_github_remote ''git@github.com:other/svc.git'' = Some (''other'', ''svc'')"
  using parse_ssh_roundtrip[of "''other''" "''svc''"] by (simp add: build_github_url_def)

lemma demo_get_url:
  "get_repo_remote_url demo_ext demo_dest (demo_state (demo_world ghs cl (Some ''git@github.com:acme/svc.git'')))
     = (Some ''git@github.com:acme/svc.git'',
        \<lparr>world = demo_world ghs cl (Some ''git@github.com:acme/svc.git''), trace = [GetRemoteUrl demo_dest]\<rparr>)"
  by (simp add: move_defs demo_defs io_defs)

lemma demo_timeout_run:
  "fst (transfer_repo demo_ext ''acme'' ''svc'' ''beta''
          (demo_detected (demo_world [reply 0 [] []] [] (Some ''git@github.com:acme/svc.git'')))) = True
   \<and> map_option fst (wait_for_transfer demo_ext 3 ''beta'' ''svc'' 120
        (snd (transfer_repo demo_ext ''acme'' ''svc'' ''beta''
          (demo_detected (demo_world [reply 0 [] []] [] (Some ''git@github.com:acme/svc.git'')))))) = Some False"
  by (simp add: transfer_repo_def wait_for_transfer_def demo_detected_def demo_defs io_defs
      numeral_3_eq_3 Let_def)

lemma demo_pending_reply:
  "x_gh demo_ext [''api'', ''/repos/'' @ ''acme'' @ ''/'' @ ''svc'' @ ''/transfer'', ''-X'', ''POST'', ''-f'',
               ''new_owner='' @ ''beta'']
     (world (demo_detected (demo_world [reply 1 [] ''Validation Failed: Transfer is already pending'',
                                        reply 0 [] []] [] (Some ''git@github.com:acme/svc.git''))))
   = (reply 1 [] ''Validation Failed: Transfer is already pending'',
      (demo_world [reply 0 [] []] [] (Some ''git@github.com:acme/svc.git''))\<lparr>dw_clock := 60\<rparr>)"
  by (simp add: demo_detected_def demo_defs io_defs)

lemma demo_pending_text:
  "str_contains ''transfer is already pending''
     (str_lower (stderr (reply 1 [] ''Validation Failed: Transfer is already pending'')))"
  by (simp add: reply_def str_lower_def ascii_lower_def)

subsection \<open>The claims\<close>

text \<open>
  Claim C4. For an accepted move whose remote URL names the source organization and
  whose transfer request answered true: when \<^verbatim>\<open>wait_for_transfer\<close> ends with false,
  \<open>process_move\<close> returns, the trace has no call of \<^verbatim>\<open>set_repo_remote_url\<close> and no
  call of the observer that was not there before, and the last message is the warning
  that the remote URL was not updated.
\<close>

theorem timeout_leaves_remote_url:
  assumes "get_repo_remote_url ext dest_path s = (Some url, s1)"
    and "parse_github_remote url = Some (src_org, repo)"
    and "transfer_repo ext src_org repo dest_org
           (print_info (''Detected move: '' @ src_org @ ''/'' @ repo @ '' -> ''
                          @ dest_org @ ''/'' @ repo) s1) = (True, s3)"
    and "wait_for_transfer ext fuel dest_org repo 120 s3 = Some (False, s4)"
  shows "\<exists>s'. process_move ext fuel cfg on_transfer src_org dest_org src_path dest_path s = Some s'
           \<and> filter is_set_url (trace s') = filter is_set_url (trace s)
           \<and> filter is_observer_call (trace s') = filter is_observer_call (trace s)
           \<and> trace s' = trace s4 @ [Print Warning (''Transfer may still be in progress. ''
                @ ''Remote URL not updated - do this manually if needed.'')]"
proof -
  let ?s2 = "print_info (''Detected move: '' @ src_org @ ''/'' @ repo @ '' -> ''
                          @ dest_org @ ''/'' @ repo) s1"
  let ?s' = "print_warning (''Transfer may still be in progress. ''
                @ ''Remote URL not updated - do this manually if needed.'') s4"
  from assms(2) have u: "url \<noteq> []" using parse_empty by auto
  have p: "process_move ext fuel cfg on_transfer src_org dest_org src_path dest_path s = Some ?s'"
    using assms u by (simp add: process_move_def finish_move_def)
  have a: "trace s1 = trace s @ [GetRemoteUrl dest_path]"
    using trace_get_repo_remote_url[of ext dest_path s] assms(1) by simp
  have b: "filter is_set_url (trace s3) = filter is_set_url (trace ?s2)
         \<and> filter is_observer_call (trace s3) = filter is_observer_call (trace ?s2)"
    using quiet_transfer_repo[of ext src_org repo dest_org ?s2] assms(3) by simp
  note c = quiet_wait_for_transfer[OF assms(4)]
  from a b c have "filter is_set_url (trace ?s') = filter is_set_url (trace s)
           \<and> filter is_observer_call (trace ?s') = filter is_observer_call (trace s)"
    by (simp add: print_warning_def print_info_def emit_def)
  with p show ?thesis by (simp add: print_warning_def emit_def)
qed

theorem timeout_leaves_remote_url_witness:
  "fst (transfer_repo demo_ext ''acme'' ''svc'' ''beta''
          (demo_detected (demo_world [reply 0 [] []] [] (Some ''git@github.com:acme/svc.git'')))) = True
   \<and> map_option fst (wait_for_transfer demo_ext 3 ''beta'' ''svc'' 120
        (snd (transfer_repo demo_ext ''acme'' ''svc'' ''beta''
          (demo_detected (demo_world [reply 0 [] []] [] (Some ''git@github.com:acme/svc.git'')))))) = Some False
   \<and> (\<exists>s'. process_move demo_ext 3 demo_config (Some (\<lambda>src_org dest_org repo w. w))
               ''acme'' ''beta'' demo_src demo_dest
               (demo_state (demo_world [reply 0 [] []] [] (Some ''git@github.com:acme/svc.git''))) = Some s'
          \<and> filter is_set_url (trace s') = []
          \<and> filter is_observer_call (trace s') = [])"
proof -
  let ?w = "demo_world [reply 0 [] []] [] (Some ''git@github.com:acme/svc.git'')"
  obtain s3 where t: "transfer_repo demo_ext ''acme'' ''svc'' ''beta'' (demo_detected ?w) = (True, s3)"
    using demo_timeout_run by (cases "transfer_repo demo_ext ''acme'' ''svc'' ''beta'' (demo_detected ?w)") auto
  with demo_timeout_run obtain s4 where
    w: "wait_for_transfer demo_ext 3 ''beta'' ''svc'' 120 s3 = Some (False, s4)" by auto
  from timeout_leaves_remote_url[OF demo_get_url demo_parse t[unfolded demo_detected_def] w,
      of demo_config "Some (\<lambda>src_org dest_org repo w. w)" demo_src]
  have "\<exists>s'. process_move demo_ext 3 demo_config (Some (\<lambda>src_org dest_org repo w. w))
               ''acme'' ''beta'' demo_src demo_dest (demo_state ?w) = Some s'
          \<and> filter is_set_url (trace s') = []
          \<and> filter is_observer_call (trace s') = []"
    by (auto simp: demo_state_def)
  with demo_timeout_run show ?thesis by blast
qed

text \<open>
  Claim C5. When the reply to the transfer request carries \<^verbatim>\<open>transfer is already
  pending\<close> (in any letter case) in its error output, \<^verbatim>\<open>transfer_repo\<close> answers true,
  its message is the warning \<^verbatim>\<open>Transfer already pending\<close> (or the success message when
  the exit code is 0), and \<open>process_move\<close> goes on with \<^verbatim>\<open>wait_for_transfer\<close>: its
  result is the result of the poll, finished by \<open>finish_move\<close>.
\<close>

theorem already_pending_advances:
  assumes "get_repo_remote_url ext dest_path s = (Some url, s1)"
    and "parse_github_remote url = Some (src_org, repo)"
    and "s2 = print_info (''Detected move: '' @ src_org @ ''/'' @ repo @ '' -> ''
                          @ dest_org @ ''/'' @ repo) s1"
    and "x_gh ext [''api'', ''/repos/'' @ src_org @ ''/'' @ repo @ ''/transfer'', ''-X'', ''POST'', ''-f'',
               ''new_owner='' @ dest_org] (world s2) = (r, w)"
    and "str_contains ''transfer is already pending'' (str_lower (stderr r))"
  shows "fst (transfer_repo ext src_org repo dest_org s2) = True
       \<and> trace (snd (transfer_repo ext src_org repo dest_org s2)) = trace s2 @
              [Print Info (''Transferring '' @ src_org @ ''/'' @ repo @ '' to '' @ dest_org @ ''...''),
               RunGh [''api'', ''/repos/'' @ src_org @ ''/'' @ repo @ ''/transfer'', ''-X'', ''POST'', ''-f'',
                      ''new_owner='' @ dest_org],
               if returncode r \<noteq> 0 then Print Warning (''Transfer already pending for '' @ repo)
               else Print Success (''Transfer initiated for '' @ repo @ '' to '' @ dest_org)]
       \<and> process_move ext fuel cfg on_transfer src_org dest_org src_path dest_path s =
           map_option (\<lambda>(confirmed, s4).
               finish_move ext cfg on_transfer src_org dest_org repo dest_path confirmed s4)
             (wait_for_transfer ext fuel dest_org repo 120 (snd (transfer_repo ext src_org repo dest_org s2)))"
proof -
  from assms(2) have u: "url \<noteq> []" using parse_empty by auto
  note t = transfer_repo_pending[OF assms(4,5)]
  have p: "process_move ext fuel cfg on_transfer src_org dest_org src_path dest_path s =
           map_option (\<lambda>(confirmed, s4).
               finish_move ext cfg on_transfer src_org dest_org repo dest_path confirmed s4)
             (wait_for_transfer ext fuel dest_org repo 120 (snd (transfer_repo ext src_org repo dest_org s2)))"
    using assms(1,2) u t unfolding assms(3)
    by (auto simp: process_move_def split: option.splits)
  from t p show ?thesis by simp
qed

theorem already_pending_advances_witness:
  "str_contains ''transfer is already pending''
     (str_lower (stderr (reply 1 [] ''Validation Failed: Transfer is already pending'')))
   \<and> fst (transfer_repo demo_ext ''acme'' ''svc'' ''beta''
        (demo_detected (demo_world [reply 1 [] ''Validation Failed: Transfer is already pending'',
                                    reply 0 [] []] [] (Some ''git@github.com:acme/svc.git'')))) = True
   \<and> process_move demo_ext 1 demo_config None ''acme'' ''beta'' demo_src demo_dest
        (demo_state (demo_world [reply 1 [] ''Validation Failed: Transfer is already pending'',
                                 reply 0 [] []] [] (Some ''git@github.com:acme/svc.git'')))
     = map_option (\<lambda>(confirmed, s4).
               finish_move demo_ext demo_config None ''acme'' ''beta'' ''svc'' demo_dest confirmed s4)
         (wait_for_transfer demo_ext 1 ''beta'' ''svc'' 120
            (snd (transfer_repo demo_ext ''acme'' ''svc'' ''beta''
               (demo_detected (demo_world [reply 1 [] ''Validation Failed: Transfer is already pending'',
                                    reply 0 [] []] [] (Some ''git@github.com:acme/svc.git''))))))
   \<and> map_option fst (wait_for_transfer demo_ext 1 ''beta'' ''svc'' 120
            (snd (transfer_repo demo_ext ''acme'' ''svc'' ''beta''
               (demo_detected (demo_world [reply 1 [] ''Validation Failed: Transfer is already pending'',
                                    reply 0 [] []] [] (Some ''git@github.com:acme/svc.git'')))))) = Some True"
proof -
  let ?w = "demo_world [reply 1 [] ''Validation Failed: Transfer is already pending'',
                                    reply 0 [] []] [] (Some ''git@github.com:acme/svc.git'')"
  note t = already_pending_advances[OF demo_get_url demo_parse demo_detected_def[of ?w, unfolded demo_dest_def[symmetric]]
      demo_pending_reply demo_pending_text, of 1 demo_config None demo_src]
  have p: "map_option fst (wait_for_transfer demo_ext 1 ''beta'' ''svc'' 120
            (snd (transfer_repo demo_ext ''acme'' ''svc'' ''beta'' (demo_detected ?w)))) = Some True"
    by (simp add: transfer_repo_def wait_for_transfer_def demo_detected_def demo_defs io_defs
      str_lower_def ascii_lower_def Let_def)
  from t p demo_pending_text show ?thesis by (simp add: demo_state_def)
qed

text \<open>
  Claim C7. When the owner parsed from the remote URL of the destination folder is not
  the source organization, \<open>process_move\<close> returns after one warning, without any
  \<^verbatim>\<open>gh\<close> command: no transfer is requested and nothing is polled.
\<close>

theorem owner_mismatch_stops:
  assumes "get_repo_remote_url ext dest_path s = (Some url, s1)"
    and "parse_github_remote url = Some (current_owner, repo)"
    and "current_owner \<noteq> src_org"
  shows "\<exists>s'. process_move ext fuel cfg on_transfer src_org dest_org src_path dest_path s = Some s'
           \<and> trace s' = trace s @ [GetRemoteUrl dest_path,
                Print Warning (''Repo '' @ repo @ '' remote shows owner as '' @ current_owner @ '', ''
                         @ ''but was moved from '' @ src_org @ ''. Skipping transfer.'')]
           \<and> filter is_gh_command (trace s') = filter is_gh_command (trace s)
           \<and> world s' = world s1"
proof -
  from assms(2) have u: "url \<noteq> []" using parse_empty by auto
  have a: "trace s1 = trace s @ [GetRemoteUrl dest_path]"
    using trace_get_repo_remote_url[of ext dest_path s] assms(1) by simp
  show ?thesis using assms u a
    by (simp add: process_move_def print_warning_def emit_def)
qed
theorem owner_mismatch_stops_witness:
  "parse_github_remote ''git@github.com:other/svc.git'' = Some (''other'', ''svc'')
   \<and> ''other'' \<noteq> ''acme''
   \<and> (\<exists>s'. process_move demo_ext 0 demo_config None ''acme'' ''beta'' demo_src demo_dest
              (demo_state (demo_world [] [] (Some ''git@github.com:other/svc.git''))) = Some s'
         \<and> trace s' = [GetRemoteUrl demo_dest,
                Print Warning (''Repo '' @ ''svc'' @ '' remote shows owner as '' @ ''other'' @ '', ''
                         @ ''but was moved from '' @ ''acme'' @ ''. Skipping transfer.'')]
         \<and> filter is_gh_command (trace s') = [])"
proof -
  have g: "get_repo_remote_url demo_ext demo_dest
             (demo_state (demo_world [] [] (Some ''git@github.com:other/svc.git'')))
     = (Some ''git@github.com:other/svc.git'',
        \<lparr>world = demo_world [] [] (Some ''git@github.com:other/svc.git''), trace = [GetRemoteUrl demo_dest]\<rparr>)"
    by (simp add: move_defs demo_defs io_defs)
  have n: "''other'' \<noteq> ''acme''" by simp
  from owner_mismatch_stops[OF g demo_parse_other n, of 0 demo_config None "''beta''" demo_src]
  obtain s' where "process_move demo_ext 0 demo_config None ''acme'' ''beta'' demo_src demo_dest
              (demo_state (demo_world [] [] (Some ''git@github.com:other/svc.git''))) = Some s'"
    and "trace s' = trace (demo_state (demo_world [] [] (Some ''git@github.com:other/svc.git''))) @ [GetRemoteUrl demo_dest,
                Print Warning (''Repo '' @ ''svc'' @ '' remote shows owner as '' @ ''other'' @ '', ''
                         @ ''but was moved from '' @ ''acme'' @ ''. Skipping transfer.'')]"
    and "filter is_gh_command (trace s') = filter is_gh_command (trace (demo_state (demo_world [] [] (Some ''git@github.com:other/svc.git''))))"
    by blast
  then have "process_move demo_ext 0 demo_config None ''acme'' ''beta'' demo_src demo_dest
              (demo_state (demo_world [] [] (Some ''git@github.com:other/svc.git''))) = Some s'
         \<and> trace s' = [GetRemoteUrl demo_dest,
                Print Warning (''Repo '' @ ''svc'' @ '' remote shows owner as '' @ ''other'' @ '', ''
                         @ ''but was moved from '' @ ''acme'' @ ''. Skipping transfer.'')]
         \<and> filter is_gh_command (trace s') = []"
    by (simp add: demo_state_def)
  with demo_parse_other n show ?thesis by blast
qed

text \<open>
  Claim C9. A directory move whose two paths have the same organization segment under
  the base path leaves the handler as it was, starts no thread and runs no \<^verbatim>\<open>gh\<close>
  command.
\<close>

theorem same_org_filtered:
  assumes "get_org_from_path cfg src_path = Some org"
    and "get_org_from_path cfg dest_path = Some org"
  shows "fst (on_moved ext cfg (DirMovedEvent src_path dest_path) (h, s)) = h
       \<and> world (snd (on_moved ext cfg (DirMovedEvent src_path dest_path) (h, s))) = world s
       \<and> filter is_thread_start (trace (snd (on_moved ext cfg (DirMovedEvent src_path dest_path) (h, s))))
           = filter is_thread_start (trace s)
       \<and> filter is_gh_command (trace (snd (on_moved ext cfg (DirMovedEvent src_path dest_path) (h, s))))
           = filter is_gh_command (trace s)"
  using assms by (auto simp: on_moved_def print_info_def emit_def split: option.splits)

theorem same_org_filtered_witness:
  "get_org_from_path demo_config [''orgs'', ''acme'', ''tmp''] = Some ''acme''
   \<and> get_org_from_path demo_config [''orgs'', ''acme'', ''tmp2''] = Some ''acme''
   \<and> fst (on_moved demo_ext demo_config
            (DirMovedEvent [''orgs'', ''acme'', ''tmp''] [''orgs'', ''acme'', ''tmp2''])
            (\<lparr>pending_moves = Map.empty\<rparr>, demo_state (demo_world [] [] None)))
       = \<lparr>pending_moves = Map.empty\<rparr>
   \<and> filter is_thread_start (trace (snd (on_moved demo_ext demo_config
            (DirMovedEvent [''orgs'', ''acme'', ''tmp''] [''orgs'', ''acme'', ''tmp2''])
            (\<lparr>pending_moves = Map.empty\<rparr>, demo_state (demo_world [] [] None))))) = []
   \<and> filter is_gh_command (trace (snd (on_moved demo_ext demo_config
            (DirMovedEvent [''orgs'', ''acme'', ''tmp''] [''orgs'', ''acme'', ''tmp2''])
            (\<lparr>pending_moves = Map.empty\<rparr>, demo_state (demo_world [] [] None))))) = []"
proof -
  have a: "get_org_from_path demo_config [''orgs'', ''acme'', ''tmp''] = Some ''acme''"
    and b: "get_org_from_path demo_config [''orgs'', ''acme'', ''tmp2''] = Some ''acme''"
    by (simp_all add: get_org_from_path_def relative_to_def demo_config_def)
  from same_org_filtered[OF a b, of demo_ext "\<lparr>pending_moves = Map.empty\<rparr>"
      "demo_state (demo_world [] [] None)"] a b
  show ?thesis by (simp add: demo_state_def)
qed

section \<open>Debounce (claim C6)\<close>






end
